theory Spec2Isabelle
  imports Main "HOL-Library.Word" "HOL-Library.Char_ord" "HOL-Library.List_Lexorder"
begin

unbundle bit_operations_syntax

section \<open>Bytes, strings and digest encodings\<close>

text \<open>
  A JavaScript string is modelled as a \<^typ>\<open>string\<close>: each \<^typ>\<open>char\<close> stands for one UTF-16
  code unit below 256 (the Latin-1 range).  \<open>createHash(..).update(s)\<close> hashes the UTF-8
  encoding of \<open>s\<close>: one byte for a code unit below 128, two bytes above.
\<close>

type_synonym byte = "8 word"

definition utf8_char :: "char \<Rightarrow> byte list" where
  "utf8_char c =
     (let n = of_char c :: nat in
      if n < 128 then [of_nat n]
      else [0xC0 OR of_nat (n div 64), 0x80 OR of_nat (n mod 64)])"

definition utf8 :: "string \<Rightarrow> byte list" where
  "utf8 s = concat (map utf8_char s)"

definition hexdigit :: "byte \<Rightarrow> char" where
  "hexdigit n = ''0123456789abcdef'' ! unat (n AND 15)"

definition hex :: "byte list \<Rightarrow> string" where
  "hex bs = concat (map (\<lambda>b. [hexdigit (drop_bit 4 b), hexdigit b]) bs)"

definition b64_std :: string where
  "b64_std = ''ABCDEFGHIJKLMNOPQRSTUVWXYZabcdefghijklmnopqrstuvwxyz0123456789+/''"

definition b64_url :: string where
  "b64_url = ''ABCDEFGHIJKLMNOPQRSTUVWXYZabcdefghijklmnopqrstuvwxyz0123456789-_''"

definition sextet :: "string \<Rightarrow> byte \<Rightarrow> char" where
  "sextet alphabet n = alphabet ! unat (n AND 63)"

text \<open>Base64 of a byte sequence; \<open>padded\<close> appends the \<open>=\<close> characters (\<open>base64\<close>),
  \<open>base64url\<close> leaves them out.\<close>

fun base64_enc :: "string \<Rightarrow> bool \<Rightarrow> byte list \<Rightarrow> string" where
  "base64_enc al padded [] = []"
| "base64_enc al padded [a] =
     [sextet al (drop_bit 2 a), sextet al (push_bit 4 a)] @ (if padded then ''=='' else [])"
| "base64_enc al padded [a, b] =
     [sextet al (drop_bit 2 a), sextet al (push_bit 4 a OR drop_bit 4 b), sextet al (push_bit 2 b)]
       @ (if padded then ''='' else [])"
| "base64_enc al padded (a # b # c # rest) =
     [sextet al (drop_bit 2 a), sextet al (push_bit 4 a OR drop_bit 4 b),
      sextet al (push_bit 2 b OR drop_bit 6 c), sextet al c] @ base64_enc al padded rest"

datatype encoding = Hex | Base64 | Base64url

fun encode :: "encoding \<Rightarrow> byte list \<Rightarrow> string" where
  "encode Hex bs = hex bs"
| "encode Base64 bs = base64_enc b64_std True bs"
| "encode Base64url bs = base64_enc b64_url False bs"

text \<open>\<open>Buffer.from(s, 'hex')\<close>: pairs of hexadecimal digits become bytes; decoding stops at the
  first pair that is not hexadecimal, and a trailing single character is dropped.\<close>

definition hexval :: "char \<Rightarrow> byte option" where
  "hexval c =
     (let n = of_char c :: nat in
      if 48 \<le> n \<and> n \<le> 57 then Some (of_nat (n - 48))
      else if 97 \<le> n \<and> n \<le> 102 then Some (of_nat (n - 87))
      else if 65 \<le> n \<and> n \<le> 70 then Some (of_nat (n - 55))
      else None)"

fun unhex :: "string \<Rightarrow> byte list" where
  "unhex (a # b # rest) =
     (case (hexval a, hexval b) of
        (Some x, Some y) \<Rightarrow> (push_bit 4 x OR y) # unhex rest
      | _ \<Rightarrow> [])"
| "unhex _ = []"

section \<open>The SHA-2 digests behind \<open>createHash\<close>\<close>

text \<open>
  \<open>createHash('sha256' | 'sha384' | 'sha512')\<close> of Node's \<open>crypto\<close> module, as FIPS 180-4
  defines the three functions.  The compression function is written once for both word
  sizes; the rotation amounts, round constants and initial values are the parameters.
\<close>

definition rotr :: "nat \<Rightarrow> 'a::len word \<Rightarrow> 'a word" where
  "rotr n x = drop_bit n x OR push_bit (LENGTH('a) - n) x"

definition Ch :: "'a::len word \<Rightarrow> 'a word \<Rightarrow> 'a word \<Rightarrow> 'a word" where
  "Ch x y z = (x AND y) XOR (NOT x AND z)"

definition Maj :: "'a::len word \<Rightarrow> 'a word \<Rightarrow> 'a word \<Rightarrow> 'a word" where
  "Maj x y z = (x AND y) XOR (x AND z) XOR (y AND z)"

definition bsig0_256 :: "32 word \<Rightarrow> 32 word" where
  "bsig0_256 x = rotr 2 x XOR rotr 13 x XOR rotr 22 x"

definition bsig1_256 :: "32 word \<Rightarrow> 32 word" where
  "bsig1_256 x = rotr 6 x XOR rotr 11 x XOR rotr 25 x"

definition ssig0_256 :: "32 word \<Rightarrow> 32 word" where
  "ssig0_256 x = rotr 7 x XOR rotr 18 x XOR drop_bit 3 x"

definition ssig1_256 :: "32 word \<Rightarrow> 32 word" where
  "ssig1_256 x = rotr 17 x XOR rotr 19 x XOR drop_bit 10 x"

definition bsig0_512 :: "64 word \<Rightarrow> 64 word" where
  "bsig0_512 x = rotr 28 x XOR rotr 34 x XOR rotr 39 x"

definition bsig1_512 :: "64 word \<Rightarrow> 64 word" where
  "bsig1_512 x = rotr 14 x XOR rotr 18 x XOR rotr 41 x"

definition ssig0_512 :: "64 word \<Rightarrow> 64 word" where
  "ssig0_512 x = rotr 1 x XOR rotr 8 x XOR drop_bit 7 x"

definition ssig1_512 :: "64 word \<Rightarrow> 64 word" where
  "ssig1_512 x = rotr 19 x XOR rotr 61 x XOR drop_bit 6 x"

definition K256 :: "32 word list" where
  "K256 =
  [0x428A2F98, 0x71374491, 0xB5C0FBCF, 0xE9B5DBA5,
   0x3956C25B, 0x59F111F1, 0x923F82A4, 0xAB1C5ED5,
   0xD807AA98, 0x12835B01, 0x243185BE, 0x550C7DC3,
   0x72BE5D74, 0x80DEB1FE, 0x9BDC06A7, 0xC19BF174,
   0xE49B69C1, 0xEFBE4786, 0xFC19DC6, 0x240CA1CC,
   0x2DE92C6F, 0x4A7484AA, 0x5CB0A9DC, 0x76F988DA,
   0x983E5152, 0xA831C66D, 0xB00327C8, 0xBF597FC7,
   0xC6E00BF3, 0xD5A79147, 0x6CA6351, 0x14292967,
   0x27B70A85, 0x2E1B2138, 0x4D2C6DFC, 0x53380D13,
   0x650A7354, 0x766A0ABB, 0x81C2C92E, 0x92722C85,
   0xA2BFE8A1, 0xA81A664B, 0xC24B8B70, 0xC76C51A3,
   0xD192E819, 0xD6990624, 0xF40E3585, 0x106AA070,
   0x19A4C116, 0x1E376C08, 0x2748774C, 0x34B0BCB5,
   0x391C0CB3, 0x4ED8AA4A, 0x5B9CCA4F, 0x682E6FF3,
   0x748F82EE, 0x78A5636F, 0x84C87814, 0x8CC70208,
   0x90BEFFFA, 0xA4506CEB, 0xBEF9A3F7, 0xC67178F2]"

definition H256 :: "32 word list" where
  "H256 =
  [0x6A09E667, 0xBB67AE85, 0x3C6EF372, 0xA54FF53A,
   0x510E527F, 0x9B05688C, 0x1F83D9AB, 0x5BE0CD19]"

definition K512 :: "64 word list" where
  "K512 =
  [0x428A2F98D728AE22, 0x7137449123EF65CD, 0xB5C0FBCFEC4D3B2F,
   0xE9B5DBA58189DBBC, 0x3956C25BF348B538, 0x59F111F1B605D019,
   0x923F82A4AF194F9B, 0xAB1C5ED5DA6D8118, 0xD807AA98A3030242,
   0x12835B0145706FBE, 0x243185BE4EE4B28C, 0x550C7DC3D5FFB4E2,
   0x72BE5D74F27B896F, 0x80DEB1FE3B1696B1, 0x9BDC06A725C71235,
   0xC19BF174CF692694, 0xE49B69C19EF14AD2, 0xEFBE4786384F25E3,
   0xFC19DC68B8CD5B5, 0x240CA1CC77AC9C65, 0x2DE92C6F592B0275,
   0x4A7484AA6EA6E483, 0x5CB0A9DCBD41FBD4, 0x76F988DA831153B5,
   0x983E5152EE66DFAB, 0xA831C66D2DB43210, 0xB00327C898FB213F,
   0xBF597FC7BEEF0EE4, 0xC6E00BF33DA88FC2, 0xD5A79147930AA725,
   0x6CA6351E003826F, 0x142929670A0E6E70, 0x27B70A8546D22FFC,
   0x2E1B21385C26C926, 0x4D2C6DFC5AC42AED, 0x53380D139D95B3DF,
   0x650A73548BAF63DE, 0x766A0ABB3C77B2A8, 0x81C2C92E47EDAEE6,
   0x92722C851482353B, 0xA2BFE8A14CF10364, 0xA81A664BBC423001,
   0xC24B8B70D0F89791, 0xC76C51A30654BE30, 0xD192E819D6EF5218,
   0xD69906245565A910, 0xF40E35855771202A, 0x106AA07032BBD1B8,
   0x19A4C116B8D2D0C8, 0x1E376C085141AB53, 0x2748774CDF8EEB99,
   0x34B0BCB5E19B48A8, 0x391C0CB3C5C95A63, 0x4ED8AA4AE3418ACB,
   0x5B9CCA4F7763E373, 0x682E6FF3D6B2B8A3, 0x748F82EE5DEFB2FC,
   0x78A5636F43172F60, 0x84C87814A1F0AB72, 0x8CC702081A6439EC,
   0x90BEFFFA23631E28, 0xA4506CEBDE82BDE9, 0xBEF9A3F7B2C67915,
   0xC67178F2E372532B, 0xCA273ECEEA26619C, 0xD186B8C721C0C207,
   0xEADA7DD6CDE0EB1E, 0xF57D4F7FEE6ED178, 0x6F067AA72176FBA,
   0xA637DC5A2C898A6, 0x113F9804BEF90DAE, 0x1B710B35131C471B,
   0x28DB77F523047D84, 0x32CAAB7B40C72493, 0x3C9EBE0A15C9BEBC,
   0x431D67C49C100D4C, 0x4CC5D4BECB3E42B6, 0x597F299CFC657E2A,
   0x5FCB6FAB3AD6FAEC, 0x6C44198C4A475817]"

definition H512 :: "64 word list" where
  "H512 =
  [0x6A09E667F3BCC908, 0xBB67AE8584CAA73B, 0x3C6EF372FE94F82B,
   0xA54FF53A5F1D36F1, 0x510E527FADE682D1, 0x9B05688C2B3E6C1F,
   0x1F83D9ABFB41BD6B, 0x5BE0CD19137E2179]"

definition H384 :: "64 word list" where
  "H384 =
  [0xCBBB9D5DC1059ED8, 0x629A292A367CD507, 0x9159015A3070DD17,
   0x152FECD8F70E5939, 0x67332667FFC00B31, 0x8EB44A8768581511,
   0xDB0C2E0D64F98FA7, 0x47B5481DBEFA4FA4]"

text \<open>The message schedule: \<open>n\<close> further words, each from four earlier ones.\<close>

primrec schedule :: "('w::plus \<Rightarrow> 'w) \<Rightarrow> ('w \<Rightarrow> 'w) \<Rightarrow> nat \<Rightarrow> 'w list \<Rightarrow> 'w list" where
  "schedule s0 s1 0 ws = ws"
| "schedule s0 s1 (Suc n) ws =
     (let t = length ws in
      schedule s0 s1 n
        (ws @ [s1 (ws ! (t - 2)) + ws ! (t - 7) + s0 (ws ! (t - 15)) + ws ! (t - 16)]))"

text \<open>One round on the eight working variables.\<close>

fun sha_round ::
  "('a::len word \<Rightarrow> 'a word) \<Rightarrow> ('a word \<Rightarrow> 'a word) \<Rightarrow> 'a word \<times> 'a word \<Rightarrow> 'a word list \<Rightarrow> 'a word list"
where
  "sha_round S0 S1 (k, w) [a, b, c, d, e, f, g, h] =
     (let t1 = h + S1 e + Ch e f g + k + w;
          t2 = S0 a + Maj a b c
      in [t1 + t2, a, b, c, d + t1, e, f, g])"
| "sha_round S0 S1 kw st = st"

definition be_word :: "byte list \<Rightarrow> 'a::len word" where
  "be_word bs = foldl (\<lambda>acc b. push_bit 8 acc OR ucast b) 0 bs"

fun chunks :: "nat \<Rightarrow> 'a list \<Rightarrow> 'a list list" where
  "chunks n xs = (if n = 0 \<or> xs = [] then [] else take n xs # chunks n (drop n xs))"

definition word_bytes :: "'a::len word \<Rightarrow> byte list" where
  "word_bytes w = map (\<lambda>i. ucast (drop_bit (8 * i) w)) (rev [0..<LENGTH('a) div 8])"

text \<open>Padding up to the length field: the byte \<open>0x80\<close>, then zero bytes until the message
  with its length field (an eighth of the block) fills whole blocks.\<close>

definition pad :: "nat \<Rightarrow> byte list \<Rightarrow> byte list" where
  "pad blk bs =
     bs @ [0x80] @ replicate ((blk - (length bs + 1 + blk div 8) mod blk) mod blk) 0"

definition compress ::
  "('a::len word \<Rightarrow> 'a word) \<Rightarrow> ('a word \<Rightarrow> 'a word) \<Rightarrow> ('a word \<Rightarrow> 'a word) \<Rightarrow> ('a word \<Rightarrow> 'a word)
    \<Rightarrow> 'a word list \<Rightarrow> byte list \<Rightarrow> 'a word list \<Rightarrow> 'a word list"
where
  "compress S0 S1 s0 s1 K blk hs =
     (let ws = schedule s0 s1 (length K - 16) (map be_word (chunks (LENGTH('a) div 8) blk))
      in map2 (+) hs (fold (sha_round S0 S1) (zip K ws) hs))"

definition sha256_bytes :: "byte list \<Rightarrow> byte list" where
  "sha256_bytes bs =
     concat (map word_bytes
       (fold (compress bsig0_256 bsig1_256 ssig0_256 ssig1_256 K256)
          (chunks 64 (pad 64 bs @ word_bytes (of_nat (8 * length bs) :: 64 word))) H256))"

definition sha512_from :: "64 word list \<Rightarrow> byte list \<Rightarrow> byte list" where
  "sha512_from iv bs =
     concat (map word_bytes
       (fold (compress bsig0_512 bsig1_512 ssig0_512 ssig1_512 K512)
          (chunks 128 (pad 128 bs @ word_bytes (of_nat (8 * length bs) :: 128 word))) iv))"

definition sha512_bytes :: "byte list \<Rightarrow> byte list" where
  "sha512_bytes bs = sha512_from H512 bs"

definition sha384_bytes :: "byte list \<Rightarrow> byte list" where
  "sha384_bytes bs = take 48 (sha512_from H384 bs)"

datatype digest_alg = Sha256 | Sha384 | Sha512

fun digest_bytes :: "digest_alg \<Rightarrow> byte list \<Rightarrow> byte list" where
  "digest_bytes Sha256 bs = sha256_bytes bs"
| "digest_bytes Sha384 bs = sha384_bytes bs"
| "digest_bytes Sha512 bs = sha512_bytes bs"

text \<open>\<open>createHash(alg).update(data).digest(encoding)\<close>\<close>

definition createHash :: "digest_alg \<Rightarrow> string \<Rightarrow> encoding \<Rightarrow> string" where
  "createHash alg data enc = encode enc (digest_bytes alg (utf8 data))"

section \<open>Hashing utilities (\<open>utils/hash.ts\<close>)\<close>

text \<open>
  Randomness and the clock are inputs: \<open>rnd\<close> is the stream of bytes that \<open>randomBytes\<close>
  draws from, \<open>ts\<close> the reading of \<open>Date.now()\<close>.  Iteration counts are integers.
\<close>

definition randomBytes :: "(nat \<Rightarrow> byte) \<Rightarrow> nat \<Rightarrow> byte list" where
  "randomBytes rnd n = map rnd [0..<n]"

definition generateSalt :: "(nat \<Rightarrow> byte) \<Rightarrow> nat \<Rightarrow> string" where
  "generateSalt rnd n = hex (randomBytes rnd n)"

definition sha256 :: "string \<Rightarrow> encoding \<Rightarrow> string" where
  "sha256 data enc = createHash Sha256 data enc"

definition sha384 :: "string \<Rightarrow> encoding \<Rightarrow> string" where
  "sha384 data enc = createHash Sha384 data enc"

definition sha512 :: "string \<Rightarrow> encoding \<Rightarrow> string" where
  "sha512 data enc = createHash Sha512 data enc"

definition SHA_INFINITY_ROUNDS :: nat where
  "SHA_INFINITY_ROUNDS = 7"

definition SHA_INFINITY_ALGORITHMS :: "digest_alg list" where
  "SHA_INFINITY_ALGORITHMS = [Sha256, Sha384, Sha512]"

text \<open>Digits of a natural number in base \<open>b\<close> (\<open>Number.prototype.toString(b)\<close> on a
  non-negative integer), lower case.\<close>

definition digit36 :: "nat \<Rightarrow> char" where
  "digit36 n = ''0123456789abcdefghijklmnopqrstuvwxyz'' ! (n mod 36)"

fun radix :: "nat \<Rightarrow> nat \<Rightarrow> string" where
  "radix b n = (if b < 2 \<or> n < b then [digit36 n] else radix b (n div b) @ [digit36 (n mod b)])"

definition mixHashes :: "string \<Rightarrow> string \<Rightarrow> digest_alg \<Rightarrow> string" where
  "mixHashes hash1 hash2 algorithm = createHash algorithm (hash1 @ '':'' @ hash2) Hex"

text \<open>The \<open>for (i = 0; i < iterations; i++)\<close> loops: \<open>nat iterations\<close> passes, none when
  the count is zero or negative.\<close>

definition iterate_hash :: "digest_alg \<Rightarrow> int \<Rightarrow> string \<Rightarrow> string" where
  "iterate_hash algorithm iterations start =
     ((\<lambda>r. createHash algorithm r Hex) ^^ nat iterations) start"

text \<open>One round of \<open>shaInfinity\<close>; \<open>Math.floor(baseIterations * Math.pow(1.5, round))\<close> is
  \<open>baseIterations * 3 ^ round div 2 ^ round\<close> on integers.\<close>

definition shaInfinity_round :: "string \<Rightarrow> int \<Rightarrow> nat \<Rightarrow> string \<Rightarrow> string" where
  "shaInfinity_round salt baseIterations round result =
     (let algorithm = SHA_INFINITY_ALGORITHMS ! (round mod length SHA_INFINITY_ALGORITHMS);
          roundSalt = createHash Sha256
            (salt @ '':round:'' @ radix 10 round @ '':'' @ take 16 result) Hex;
          iterations = (baseIterations * 3 ^ round) div 2 ^ round;
          roundResult = iterate_hash algorithm iterations (result @ '':'' @ roundSalt)
      in mixHashes result roundResult algorithm)"

definition shaInfinity :: "(nat \<Rightarrow> byte) \<Rightarrow> string \<Rightarrow> string \<Rightarrow> int \<Rightarrow> encoding \<Rightarrow> string" where
  "shaInfinity rnd data baseSalt baseIterations enc =
     (let salt = (if baseSalt = [] then generateSalt rnd 32 else baseSalt);
          result = fold (shaInfinity_round salt baseIterations) [0..<SHA_INFINITY_ROUNDS] data
      in createHash Sha512 result enc)"

datatype algorithm = Std digest_alg | Sha_infinity

text \<open>\<open>Partial<HashOptions>\<close>: an absent field is \<open>None\<close>.\<close>

record HashOptions =
  algorithm :: "algorithm option"
  iterations :: "int option"
  salt :: "string option"
  encoding :: "encoding option"

record HashResult =
  hr_hash :: string
  hr_algorithm :: algorithm
  hr_iterations :: int
  hr_salt :: string
  hr_timestamp :: int

record HashVerification =
  valid :: bool
  hv_hash :: HashResult
  hv_input :: string

definition no_options :: HashOptions where
  "no_options = \<lparr>algorithm = None, iterations = None, salt = None, encoding = None\<rparr>"

text \<open>\<open>{ ...DEFAULT_OPTIONS, ...options }\<close>\<close>

definition with_defaults :: "HashOptions \<Rightarrow> algorithm \<times> int \<times> string \<times> encoding" where
  "with_defaults options =
     (case_option (Std Sha256) id (algorithm options),
      case_option 100000 id (iterations options),
      case_option [] id (salt options),
      case_option Hex id (encoding options))"

definition hash :: "(nat \<Rightarrow> byte) \<Rightarrow> int \<Rightarrow> string \<Rightarrow> HashOptions \<Rightarrow> HashResult" where
  "hash rnd ts data options =
     (case with_defaults options of (opt_algorithm, opt_iterations, opt_salt, opt_encoding) \<Rightarrow>
       let salt' = (if opt_salt = [] then generateSalt rnd 32 else opt_salt);
           result =
             (case opt_algorithm of
                Sha_infinity \<Rightarrow> shaInfinity rnd data salt' opt_iterations opt_encoding
              | Std alg \<Rightarrow>
                  (let r = iterate_hash alg opt_iterations (data @ '':'' @ salt')
                   in if opt_encoding \<noteq> Hex then encode opt_encoding (unhex r) else r))
       in \<lparr>hr_hash = result, hr_algorithm = opt_algorithm, hr_iterations = opt_iterations,
           hr_salt = salt', hr_timestamp = ts\<rparr>)"

text \<open>\<open>timingSafeEqual\<close> throws a \<open>RangeError\<close> on buffers of different byte length:
  \<open>None\<close>.\<close>

definition timingSafeEqual :: "byte list \<Rightarrow> byte list \<Rightarrow> bool option" where
  "timingSafeEqual bufA bufB = (if length bufA \<noteq> length bufB then None else Some (bufA = bufB))"

definition timingSafeCompare :: "string \<Rightarrow> string \<Rightarrow> bool option" where
  "timingSafeCompare a b =
     (if length a \<noteq> length b then Some False else timingSafeEqual (utf8 a) (utf8 b))"

definition verify :: "(nat \<Rightarrow> byte) \<Rightarrow> int \<Rightarrow> string \<Rightarrow> HashResult \<Rightarrow> HashVerification option" where
  "verify rnd ts data hashResult =
     (let recomputed = hash rnd ts data
            \<lparr>algorithm = Some (hr_algorithm hashResult), iterations = Some (hr_iterations hashResult),
             salt = Some (hr_salt hashResult), encoding = Some Hex\<rparr>
      in map_option (\<lambda>v. \<lparr>valid = v, hv_hash = hashResult, hv_input = data\<rparr>)
           (timingSafeCompare (hr_hash recomputed) (hr_hash hashResult)))"

section \<open>Numbers\<close>

text \<open>
  The numbers of a record (a number inside its data, its version) are the JavaScript numbers
  that hold an integer of magnitude at most \<open>2^53\<close>.  In this range every integer is a
  double, and \<open>Number::toString\<close> prints its decimal digits; fractions and larger doubles are
  outside the model.
\<close>

typedef number = "{n :: int. - (2 ^ 53) \<le> n \<and> n \<le> 2 ^ 53}"
  morphisms int_of_number Abs_number
  by (rule exI [of _ 0]) simp

setup_lifting type_definition_number

text \<open>The literal \<open>1\<close>\<close>

lift_definition number_one :: number is 1
  by simp

text \<open>\<open>x + 1\<close> in double arithmetic: exact up to the sum \<open>2^53\<close>; the sum \<open>2^53 + 1\<close> is not
  a double and lies half way between the doubles \<open>2^53\<close> and \<open>2^53 + 2\<close>, of which the first has
  the even significand, so that \<open>2^53 + 1\<close> is \<open>2^53\<close>.\<close>

lift_definition plus_one :: "number \<Rightarrow> number" is "\<lambda>n. if n < 2 ^ 53 then n + 1 else n"
  by auto

text \<open>\<open>Number::toString\<close>\<close>

definition Number_toString :: "number \<Rightarrow> string" where
  "Number_toString x =
     (let i = int_of_number x
      in if i < 0 then CHR ''-'' # radix 10 (nat (- i)) else radix 10 (nat i))"

section \<open>JSON values and \<open>JSON.stringify\<close> with an array replacer\<close>

text \<open>
  A JSON-like value.  An object is the list of its own properties in the order in which
  the engine lists them (see \<open>own_properties\<close> below); a number is a \<^typ>\<open>number\<close>.
\<close>

datatype json =
    JNull
  | JBool bool
  | JNum number
  | JStr string
  | JArr "json list"
  | JObj "(string \<times> json) list"

type_synonym obj = "(string \<times> json) list"

definition quote_char :: "char \<Rightarrow> string" where
  "quote_char c =
     (let n = of_char c :: nat in
      if n = 0x22 then [CHR 0x5C, CHR 0x22]
      else if n = 0x5C then [CHR 0x5C, CHR 0x5C]
      else if n = 8 then [CHR 0x5C, CHR ''b'']
      else if n = 9 then [CHR 0x5C, CHR ''t'']
      else if n = 10 then [CHR 0x5C, CHR ''n'']
      else if n = 12 then [CHR 0x5C, CHR ''f'']
      else if n = 13 then [CHR 0x5C, CHR ''r'']
      else if n < 32 then [CHR 0x5C, CHR ''u'', CHR ''0'', CHR ''0'',
                           hexdigit (of_nat (n div 16)), hexdigit (of_nat n)]
      else [c])"

definition quote :: "string \<Rightarrow> string" where
  "quote s = [CHR 0x22] @ concat (map quote_char s) @ [CHR 0x22]"

fun join :: "string \<Rightarrow> string list \<Rightarrow> string" where
  "join sep [] = []"
| "join sep [x] = x"
| "join sep (x # y # ys) = x @ sep @ join sep (y # ys)"

text \<open>The members of an object under a property list \<open>K\<close>: for each name of \<open>K\<close>, in
  the order of \<open>K\<close>, the member \<open>"name":value\<close> when the object has that property.  The
  object's own order and its properties outside \<open>K\<close> play no part.\<close>

definition members :: "string list \<Rightarrow> (string \<times> string) list \<Rightarrow> string list" where
  "members K props =
     concat (map (\<lambda>P. case map_of props P of None \<Rightarrow> [] | Some strP \<Rightarrow> [quote P @ '':'' @ strP]) K)"

text \<open>\<open>SerializeJSONProperty\<close> with the property list \<open>K\<close>, which applies to the objects at
  every depth.\<close>

primrec serialize :: "string list \<Rightarrow> json \<Rightarrow> string" where
  "serialize K JNull = ''null''"
| "serialize K (JBool b) = (if b then ''true'' else ''false'')"
| "serialize K (JNum n) = Number_toString n"
| "serialize K (JStr s) = quote s"
| "serialize K (JArr xs) = ''['' @ join '','' (map (serialize K) xs) @ '']''"
| "serialize K (JObj ps) =
     ''{'' @ join '','' (members K (map (map_prod id (serialize K)) ps)) @ ''}''"

text \<open>\<open>JSON.stringify(value, replacer)\<close> for an array \<open>replacer\<close> of strings: the property
  list is the replacer with every name kept where it first occurs.\<close>

definition property_list :: "string list \<Rightarrow> string list" where
  "property_list replacer = rev (remdups (rev replacer))"

definition JSON_stringify :: "json \<Rightarrow> string list \<Rightarrow> string" where
  "JSON_stringify v replacer = serialize (property_list replacer) v"

text \<open>
  The order in which an object lists its own properties (\<open>OrdinaryOwnPropertyKeys\<close>): the
  array indices first, in ascending numeric order, then the other names in the order in
  which they were defined.  An array index is the decimal numeral, without a leading zero,
  of an integer from \<open>0\<close> to \<open>2^32 - 2\<close>.
\<close>

definition is_digit :: "char \<Rightarrow> bool" where
  "is_digit c = (48 \<le> (of_char c :: nat) \<and> (of_char c :: nat) \<le> 57)"

definition decimal :: "string \<Rightarrow> nat" where
  "decimal s = foldl (\<lambda>n c. 10 * n + (of_char c - 48)) 0 s"

definition array_index :: "string \<Rightarrow> nat option" where
  "array_index s =
     (if s \<noteq> [] \<and> list_all is_digit s \<and> (s = ''0'' \<or> hd s \<noteq> CHR ''0'')
         \<and> decimal s < 2 ^ 32 - 1
      then Some (decimal s) else None)"

definition index_of :: "string \<Rightarrow> nat" where
  "index_of s = (case array_index s of None \<Rightarrow> 0 | Some i \<Rightarrow> i)"

definition own_properties :: "(string \<times> 'a) list \<Rightarrow> (string \<times> 'a) list" where
  "own_properties ps =
     sort_key (\<lambda>p. index_of (fst p)) (filter (\<lambda>p. array_index (fst p) \<noteq> None) ps)
       @ filter (\<lambda>p. array_index (fst p) = None) ps"

text \<open>\<open>Object.keys(state)\<close>\<close>

definition Object_keys :: "obj \<Rightarrow> string list" where
  "Object_keys state = map fst state"

definition hashState :: "obj \<Rightarrow> string" where
  "hashState state =
     (let sorted = JSON_stringify (JObj state) (sort (Object_keys state))
      in sha256 sorted Hex)"

section \<open>The state manager (\<open>state/manager.ts\<close>)\<close>

subsection \<open>Records and the local store\<close>

record StateRecord =
  rec_id :: string
  rec_type :: string
  rec_data :: obj
  rec_hash :: string
  rec_version :: number
  rec_createdAt :: string
  rec_updatedAt :: string
  rec_syncedTo :: "string list"

text \<open>A \<open>Map<string, StateRecord>\<close>: its entries in insertion order.  \<open>Map_set\<close> replaces
  the value of a key that is present, where it stands, and appends a new key.\<close>

type_synonym record_map = "(string \<times> StateRecord) list"

primrec Map_set :: "'k \<Rightarrow> 'v \<Rightarrow> ('k \<times> 'v) list \<Rightarrow> ('k \<times> 'v) list" where
  "Map_set k v [] = [(k, v)]"
| "Map_set k v (p # ps) = (if fst p = k then (k, v) # ps else p # Map_set k v ps)"

definition Map_get :: "('k \<times> 'v) list \<Rightarrow> 'k \<Rightarrow> 'v option" where
  "Map_get m k = map_of m k"

definition Map_has :: "('k \<times> 'v) list \<Rightarrow> 'k \<Rightarrow> bool" where
  "Map_has m k = (map_of m k \<noteq> None)"

definition Map_delete :: "'k \<Rightarrow> ('k \<times> 'v) list \<Rightarrow> ('k \<times> 'v) list" where
  "Map_delete k m = filter (\<lambda>p. fst p \<noteq> k) m"

definition Map_values :: "('k \<times> 'v) list \<Rightarrow> 'v list" where
  "Map_values m = map snd m"

record StoredState =
  records :: record_map
  lastSync :: string
  store_hash :: string

datatype policy = Local | Remote | Manual | Latest

text \<open>The manager: its conflict resolution policy (the one field of \<open>config\<close> that the
  operations below read), whether each client is set (\<open>!== null\<close>), the local state and the
  in-progress flag.  What the clients answer is an input of each operation.\<close>

record StateManager =
  conflictResolution :: policy
  cloudflare :: bool
  salesforce :: bool
  localState :: StoredState
  syncInProgress :: bool

definition createStateManager :: "policy \<Rightarrow> StateManager" where
  "createStateManager p =
     \<lparr>conflictResolution = p, cloudflare = False, salesforce = False,
      localState = \<lparr>records = [], lastSync = [], store_hash = []\<rparr>,
      syncInProgress = False\<rparr>"

definition initialize :: "bool \<Rightarrow> bool \<Rightarrow> StateManager \<Rightarrow> StateManager" where
  "initialize cf sf m = m\<lparr>cloudflare := cf, salesforce := sf\<rparr>"

text \<open>A record as the JavaScript object that \<open>JSON.stringify\<close> sees.\<close>

definition json_of_record :: "StateRecord \<Rightarrow> json" where
  "json_of_record r =
     JObj [(''id'', JStr (rec_id r)), (''type'', JStr (rec_type r)), (''data'', JObj (rec_data r)),
           (''hash'', JStr (rec_hash r)), (''version'', JNum (rec_version r)),
           (''createdAt'', JStr (rec_createdAt r)), (''updatedAt'', JStr (rec_updatedAt r)),
           (''syncedTo'', JArr (map JStr (rec_syncedTo r)))]"

text \<open>\<open>Object.fromEntries(this.localState.records)\<close>\<close>

definition Object_fromEntries :: "record_map \<Rightarrow> json" where
  "Object_fromEntries rs = JObj (own_properties (map (\<lambda>p. (fst p, json_of_record (snd p))) rs))"

definition stateData :: "StoredState \<Rightarrow> obj" where
  "stateData st = [(''records'', Object_fromEntries (records st)), (''lastSync'', JStr (lastSync st))]"

definition updateLocalHash :: "StateManager \<Rightarrow> StateManager" where
  "updateLocalHash m =
     m\<lparr>localState := (localState m)\<lparr>store_hash := hashState (stateData (localState m))\<rparr>\<rparr>"

definition toString36 :: "int \<Rightarrow> string" where
  "toString36 i = (if i < 0 then CHR ''-'' # radix 36 (nat (- i)) else radix 36 (nat i))"

definition hashId :: "(nat \<Rightarrow> byte) \<Rightarrow> int \<Rightarrow> string \<Rightarrow> string" where
  "hashId rnd ts prefix =
     (let timestamp = toString36 ts;
          random = hex (randomBytes rnd 8);
          h = take 12 (sha256 (timestamp @ '':'' @ random) Hex)
      in prefix @ ''_'' @ h)"

text \<open>In the operations below, \<open>now\<close> is \<open>new Date().toISOString()\<close> at the call.\<close>

definition create ::
  "(nat \<Rightarrow> byte) \<Rightarrow> int \<Rightarrow> string \<Rightarrow> string \<Rightarrow> obj \<Rightarrow> StateManager \<Rightarrow> StateRecord \<times> StateManager"
where
  "create rnd ts now type data m =
     (let record = \<lparr>rec_id = hashId rnd ts type, rec_type = type, rec_data = data,
                     rec_hash = hashState data, rec_version = number_one, rec_createdAt = now,
                     rec_updatedAt = now, rec_syncedTo = []\<rparr>;
          st = localState m
      in (record, updateLocalHash (m\<lparr>localState := st\<lparr>records := Map_set (rec_id record) record (records st)\<rparr>\<rparr>)))"

definition get :: "StateManager \<Rightarrow> string \<Rightarrow> StateRecord option" where
  "get m ident = Map_get (records (localState m)) ident"

definition getByType :: "StateManager \<Rightarrow> string \<Rightarrow> StateRecord list" where
  "getByType m type = filter (\<lambda>r. rec_type r = type) (Map_values (records (localState m)))"

text \<open>The object spread \<open>{ ...a, ...b }\<close>: the properties of \<open>a\<close> are defined on a new object,
  then those of \<open>b\<close>, a property of both keeping its place in \<open>a\<close> and taking its value from
  \<open>b\<close>; the new object lists them in the order of \<open>own_properties\<close>.\<close>

definition spread :: "obj \<Rightarrow> obj \<Rightarrow> obj" where
  "spread a b = own_properties (fold (\<lambda>p acc. Map_set (fst p) (snd p) acc) b a)"

definition update :: "string \<Rightarrow> string \<Rightarrow> obj \<Rightarrow> StateManager \<Rightarrow> StateRecord option \<times> StateManager" where
  "update now ident data m =
     (case Map_get (records (localState m)) ident of
        None \<Rightarrow> (None, m)
      | Some record \<Rightarrow>
          (let updatedData = spread (rec_data record) data;
               updated = record\<lparr>rec_data := updatedData, rec_hash := hashState updatedData,
                                rec_version := plus_one (rec_version record), rec_updatedAt := now,
                                rec_syncedTo := []\<rparr>;
               st = localState m
           in (Some updated,
               updateLocalHash (m\<lparr>localState := st\<lparr>records := Map_set ident updated (records st)\<rparr>\<rparr>))))"

definition delete :: "string \<Rightarrow> StateManager \<Rightarrow> bool \<times> StateManager" where
  "delete ident m =
     (let st = localState m; deleted = Map_has (records st) ident
      in if deleted
         then (True, updateLocalHash (m\<lparr>localState := st\<lparr>records := Map_delete ident (records st)\<rparr>\<rparr>))
         else (False, m))"

subsection \<open>What the remote stores answer\<close>

text \<open>
  The payload kept under the key \<open>blackroad_state\<close>, at the types the manager asserts for
  it (\<open>{ records?: Record<string, StateRecord> }\<close>): the records when the property is there,
  and the other properties of the object.
\<close>

record remote_state =
  rs_records :: "record_map option"
  rs_other :: obj

definition json_of_remote_state :: "remote_state \<Rightarrow> obj" where
  "json_of_remote_state rs =
     (case rs_records rs of None \<Rightarrow> [] | Some recs \<Rightarrow> [(''records'', Object_fromEntries recs)])
       @ rs_other rs"

text \<open>The stored text after \<open>JSON.parse\<close>: \<open>parsed.data\<close> and \<open>parsed.hash\<close>.\<close>

record kv_payload =
  p_data :: remote_state
  p_hash :: string

text \<open>The outcome of \<open>kvGet\<close>, with the stored text already read: the request throws (with a
  message), it fails or finds no value, the value is not JSON, or it parses.\<close>

datatype kv_reply = KvThrows string | KvNoData | KvUnparsable | KvParsed kv_payload

record retrieved =
  rv_state :: remote_state
  rv_hash :: string
  rv_valid :: bool

text \<open>\<open>CloudflareClient.retrieveState\<close>: \<open>Inl\<close> is an exception, \<open>Inr None\<close> a response
  without data, \<open>Inr (Some _)\<close> a successful one.\<close>

definition retrieveState :: "kv_reply \<Rightarrow> string + retrieved option" where
  "retrieveState reply =
     (case reply of
        KvThrows msg \<Rightarrow> Inl msg
      | KvNoData \<Rightarrow> Inr None
      | KvUnparsable \<Rightarrow> Inr None
      | KvParsed parsed \<Rightarrow>
          (let currentHash = hashState (json_of_remote_state (p_data parsed));
               isValid = (currentHash = p_hash parsed)
           in Inr (Some \<lparr>rv_state = p_data parsed, rv_hash = p_hash parsed, rv_valid = isValid\<rparr>)))"

record SalesforceRecord =
  sf_Id :: string
  sf_fields :: obj

definition json_of_SalesforceRecord :: "SalesforceRecord \<Rightarrow> obj" where
  "json_of_SalesforceRecord a = (''Id'', JStr (sf_Id a)) # sf_fields a"

record CRMState =
  accounts :: "SalesforceRecord list"
  contacts :: "SalesforceRecord list"
  opportunities :: "SalesforceRecord list"

datatype crm_reply = CrmThrows string | CrmFailed | CrmOk CRMState

datatype store_reply = StoreThrows string | StoreFailed | StoreOk

text \<open>Everything one call of \<open>sync\<close> takes from outside: the answers of the two clients and
  the clock, read while the CRM state is merged (\<open>t_merge\<close>) and when the call completes
  (\<open>t_done\<close>).\<close>

record sync_env =
  kv_get :: kv_reply
  crm_get :: crm_reply
  cf_store :: store_reply
  sf_store :: store_reply
  t_merge :: string
  t_done :: string

subsection \<open>Synchronisation\<close>

datatype direction = Push | Pull | Bidirectional

record SyncOptions =
  force :: bool
  direction :: "direction option"
  includeTypes :: "string list option"
  excludeTypes :: "string list option"

datatype resolution = ResLocal | ResRemote | ResMerge

record StateConflict =
  recordId :: string
  field :: string
  localValue :: obj
  remoteValue :: obj
  resolution :: "resolution option"

record StateSyncResult =
  success :: bool
  synced :: "string list"
  failed :: "string list"
  conflicts :: "StateConflict list"

definition empty_result :: StateSyncResult where
  "empty_result = \<lparr>success = True, synced = [], failed = [], conflicts = []\<rparr>"

text \<open>\<open>localTime >= remoteTime\<close> on the results of \<open>getTime()\<close>, where \<open>None\<close> is \<open>NaN\<close>.\<close>

definition time_ge :: "int option \<Rightarrow> int option \<Rightarrow> bool" where
  "time_ge a b = (case a of None \<Rightarrow> False | Some x \<Rightarrow> (case b of None \<Rightarrow> False | Some y \<Rightarrow> y \<le> x))"

text \<open>\<open>getTime\<close> is \<open>s \<mapsto> new Date(s).getTime()\<close>.\<close>

definition resolveConflict ::
  "(string \<Rightarrow> int option) \<Rightarrow> policy \<Rightarrow> StateRecord \<Rightarrow> StateRecord \<Rightarrow> resolution option \<times> StateRecord option"
where
  "resolveConflict getTime p local remote =
     (case p of
        Local \<Rightarrow> (Some ResLocal, Some local)
      | Remote \<Rightarrow> (Some ResRemote, Some (remote\<lparr>rec_syncedTo := [''cloudflare'', ''salesforce'']\<rparr>))
      | Latest \<Rightarrow>
          (if time_ge (getTime (rec_updatedAt local)) (getTime (rec_updatedAt remote))
           then (Some ResLocal, Some local)
           else (Some ResRemote, Some (remote\<lparr>rec_syncedTo := [''cloudflare'', ''salesforce'']\<rparr>)))
      | Manual \<Rightarrow> (None, None))"

text \<open>The body of the loop over \<open>Object.entries(remoteState.records)\<close>.\<close>

definition pull_record ::
  "(string \<Rightarrow> int option) \<Rightarrow> policy \<Rightarrow> string \<times> StateRecord \<Rightarrow> StateSyncResult \<times> record_map
    \<Rightarrow> StateSyncResult \<times> record_map"
where
  "pull_record getTime p entry acc =
     (case entry of (ident, remoteRecord) \<Rightarrow>
      case acc of (result, recs) \<Rightarrow>
       (case Map_get recs ident of
          None \<Rightarrow>
            (result\<lparr>synced := synced result @ [''cloudflare:'' @ ident]\<rparr>,
             Map_set ident (remoteRecord\<lparr>rec_syncedTo := [''cloudflare'']\<rparr>) recs)
        | Some localRecord \<Rightarrow>
            if rec_hash remoteRecord \<noteq> rec_hash localRecord then
              (case resolveConflict getTime p localRecord remoteRecord of (res, resolved) \<Rightarrow>
                 let result' = result\<lparr>conflicts := conflicts result @
                       [\<lparr>recordId = ident, field = ''data'', localValue = rec_data localRecord,
                         remoteValue = rec_data remoteRecord, resolution = res\<rparr>]\<rparr>
                 in (case resolved of
                       None \<Rightarrow> (result', recs)
                     | Some record \<Rightarrow>
                         (result'\<lparr>synced := synced result' @ [''cloudflare:'' @ ident @ '':resolved'']\<rparr>,
                          Map_set ident record recs)))
            else (result, recs)))"

definition pull_cloudflare ::
  "(string \<Rightarrow> int option) \<Rightarrow> policy \<Rightarrow> kv_reply \<Rightarrow> StateSyncResult \<times> record_map
    \<Rightarrow> StateSyncResult \<times> record_map"
where
  "pull_cloudflare getTime p reply acc =
     (case retrieveState reply of
        Inl msg \<Rightarrow> (case acc of (result, recs) \<Rightarrow>
          (result\<lparr>failed := failed result @ [''cloudflare:'' @ msg]\<rparr>, recs))
      | Inr None \<Rightarrow> acc
      | Inr (Some kvData) \<Rightarrow>
          if rv_valid kvData then
            (case rs_records (rv_state kvData) of
               None \<Rightarrow> acc
             | Some remoteRecords \<Rightarrow> fold (pull_record getTime p) remoteRecords acc)
          else acc)"

definition crm_record :: "string \<Rightarrow> string \<Rightarrow> string \<Rightarrow> SalesforceRecord \<Rightarrow> StateRecord" where
  "crm_record now ident type a =
     \<lparr>rec_id = ident, rec_type = type, rec_data = json_of_SalesforceRecord a,
      rec_hash = hashState (json_of_SalesforceRecord a), rec_version = number_one,
      rec_createdAt = now,
      rec_updatedAt = now, rec_syncedTo = [''salesforce'']\<rparr>"

definition merge_crm :: "string \<Rightarrow> string \<Rightarrow> SalesforceRecord \<Rightarrow> record_map \<Rightarrow> record_map" where
  "merge_crm now type a recs =
     (let ident = type @ ''_'' @ sf_Id a
      in if Map_has recs ident then recs else Map_set ident (crm_record now ident type a) recs)"

definition mergeCRMState :: "string \<Rightarrow> CRMState \<Rightarrow> record_map \<Rightarrow> record_map" where
  "mergeCRMState now crmState recs =
     fold (merge_crm now ''crm_opportunity'') (opportunities crmState)
       (fold (merge_crm now ''crm_contact'') (contacts crmState)
          (fold (merge_crm now ''crm_account'') (accounts crmState) recs))"

definition pull_salesforce ::
  "string \<Rightarrow> crm_reply \<Rightarrow> StateSyncResult \<times> record_map \<Rightarrow> StateSyncResult \<times> record_map"
where
  "pull_salesforce now reply acc =
     (case acc of (result, recs) \<Rightarrow>
      case reply of
        CrmThrows msg \<Rightarrow> (result\<lparr>failed := failed result @ [''salesforce:'' @ msg]\<rparr>, recs)
      | CrmFailed \<Rightarrow> (result, recs)
      | CrmOk crmState \<Rightarrow>
          (result\<lparr>synced := synced result @ [''salesforce:crm_state'']\<rparr>,
           mergeCRMState now crmState recs))"

definition pullFromRemote ::
  "(string \<Rightarrow> int option) \<Rightarrow> sync_env \<Rightarrow> StateManager \<Rightarrow> StateSyncResult \<times> StateManager"
where
  "pullFromRemote getTime env m =
     (let acc0 = (empty_result, records (localState m));
          acc1 = (if cloudflare m
                  then pull_cloudflare getTime (conflictResolution m) (kv_get env) acc0 else acc0);
          acc2 = (if salesforce m then pull_salesforce (t_merge env) (crm_get env) acc1 else acc1)
      in (fst acc2, updateLocalHash (m\<lparr>localState := (localState m)\<lparr>records := snd acc2\<rparr>\<rparr>)))"

text \<open>The filter that picks \<open>recordsToSync\<close>.\<close>

definition needs_sync :: "SyncOptions \<Rightarrow> StateRecord \<Rightarrow> bool" where
  "needs_sync options r =
     (if (case includeTypes options of None \<Rightarrow> False | Some ts \<Rightarrow> rec_type r \<notin> set ts) then False
      else if (case excludeTypes options of None \<Rightarrow> False | Some ts \<Rightarrow> rec_type r \<in> set ts) then False
      else force options \<or> length (rec_syncedTo r) < 2)"

definition recordsToSync :: "SyncOptions \<Rightarrow> record_map \<Rightarrow> StateRecord list" where
  "recordsToSync options recs = filter (needs_sync options) (Map_values recs)"

text \<open>One push: on success, every record picked before the pushes is marked (in place, in
  the map) and listed.\<close>

definition mark_synced :: "string \<Rightarrow> bool \<Rightarrow> string \<times> StateRecord \<Rightarrow> string \<times> StateRecord" where
  "mark_synced store picked entry =
     (if picked \<and> store \<notin> set (rec_syncedTo (snd entry))
      then (fst entry, (snd entry)\<lparr>rec_syncedTo := rec_syncedTo (snd entry) @ [store]\<rparr>)
      else entry)"

definition push_store ::
  "string \<Rightarrow> store_reply \<Rightarrow> bool list \<Rightarrow> StateSyncResult \<times> record_map \<Rightarrow> StateSyncResult \<times> record_map"
where
  "push_store store reply picked acc =
     (case acc of (result, recs) \<Rightarrow>
      case reply of
        StoreThrows msg \<Rightarrow> (result\<lparr>failed := failed result @ [store @ '':'' @ msg]\<rparr>, recs)
      | StoreFailed \<Rightarrow> (result, recs)
      | StoreOk \<Rightarrow>
          (result\<lparr>synced := synced result @
              map (\<lambda>e. store @ '':'' @ rec_id (snd e)) (map snd (filter fst (zip picked recs)))\<rparr>,
           map2 (mark_synced store) picked recs))"

definition pushToRemote :: "SyncOptions \<Rightarrow> sync_env \<Rightarrow> StateManager \<Rightarrow> StateSyncResult \<times> StateManager" where
  "pushToRemote options env m =
     (let recs = records (localState m);
          picked = map (\<lambda>e. needs_sync options (snd e)) recs;
          acc0 = (empty_result, recs);
          acc1 = (if cloudflare m then push_store ''cloudflare'' (cf_store env) picked acc0 else acc0);
          acc2 = (if salesforce m then push_store ''salesforce'' (sf_store env) picked acc1 else acc1)
      in (fst acc2, m\<lparr>localState := (localState m)\<lparr>records := snd acc2\<rparr>\<rparr>))"

definition in_progress_result :: StateSyncResult where
  "in_progress_result =
     \<lparr>success = False, synced = [], failed = [''Sync already in progress''], conflicts = []\<rparr>"

definition sync ::
  "(string \<Rightarrow> int option) \<Rightarrow> SyncOptions \<Rightarrow> sync_env \<Rightarrow> StateManager \<Rightarrow> StateSyncResult \<times> StateManager"
where
  "sync getTime options env m =
     (if syncInProgress m then (in_progress_result, m)
      else
        (let m0 = m\<lparr>syncInProgress := True\<rparr>;
             dir = (case direction options of None \<Rightarrow> Bidirectional | Some d \<Rightarrow> d);
             pulled = (if dir = Pull \<or> dir = Bidirectional then pullFromRemote getTime env m0
                       else (empty_result, m0));
             pushed = (if dir = Push \<or> dir = Bidirectional then pushToRemote options env (snd pulled)
                       else (empty_result, snd pulled));
             allFailed = failed (fst pulled) @ failed (fst pushed);
             result = \<lparr>success = (allFailed = []),
                       synced = synced (fst pulled) @ synced (fst pushed),
                       failed = allFailed,
                       conflicts = conflicts (fst pulled)\<rparr>;
             m1 = snd pushed
         in (result, m1\<lparr>localState := (localState m1)\<lparr>lastSync := t_done env\<rparr>,
                        syncInProgress := False\<rparr>)))"

subsection \<open>Status, export and import\<close>

record SyncStatus =
  st_lastSync :: string
  st_recordCount :: nat
  st_pendingSync :: nat
  st_hash :: string

definition getSyncStatus :: "StateManager \<Rightarrow> SyncStatus" where
  "getSyncStatus m =
     \<lparr>st_lastSync = lastSync (localState m),
      st_recordCount = length (records (localState m)),
      st_pendingSync = length (filter (\<lambda>r. length (rec_syncedTo r) < 2) (Map_values (records (localState m)))),
      st_hash = store_hash (localState m)\<rparr>"

text \<open>\<open>importState\<close> at the types it asserts: \<open>state['records']\<close> when present, and
  \<open>state['lastSync']\<close> (\<open>''\<close> when absent).\<close>

definition importState :: "record_map option \<Rightarrow> string option \<Rightarrow> StateManager \<Rightarrow> StateManager" where
  "importState recs ls m =
     (let st = localState m;
          st1 = (case recs of None \<Rightarrow> st | Some rs \<Rightarrow> st\<lparr>records := rs\<rparr>)
      in updateLocalHash (m\<lparr>localState := st1\<lparr>lastSync := case_option [] id ls\<rparr>\<rparr>))"

definition clear :: "StateManager \<Rightarrow> StateManager" where
  "clear m = m\<lparr>localState := \<lparr>records = [], lastSync = [], store_hash = []\<rparr>\<rparr>"

section \<open>The push selection as the specification words it\<close>


definition passes_type_filter :: "SyncOptions \<Rightarrow> StateRecord \<Rightarrow> bool" where
  "passes_type_filter options r =
     ((case includeTypes options of None \<Rightarrow> True | Some ts \<Rightarrow> rec_type r \<in> set ts)
      \<and> (case excludeTypes options of None \<Rightarrow> True | Some ts \<Rightarrow> rec_type r \<notin> set ts))"


section \<open>Example states\<close>

definition ex_time :: string where
  "ex_time = ''2026-01-01T00:00:00.000Z''"

definition ex_getTime :: "string \<Rightarrow> int option" where
  "ex_getTime s =
     (if s = ''2026-01-01T00:00:00.000Z'' then Some 1767225600000
      else if s = ''2026-01-02T00:00:00.000Z'' then Some 1767312000000
      else if s = ''2026-01-02T00:00:01.000Z'' then Some 1767312001000
      else None)"

definition ex_rnd :: "nat \<Rightarrow> byte" where
  "ex_rnd i = of_nat (7 * i + 1)"

definition ex_nested_prod :: obj where
  "ex_nested_prod = [(''app'', JStr ''x''), (''config'', JObj [(''env'', JStr ''prod'')])]"

definition ex_nested_staging :: obj where
  "ex_nested_staging = [(''app'', JStr ''x''), (''config'', JObj [(''env'', JStr ''staging'')])]"

definition ex_record :: "string \<Rightarrow> obj \<Rightarrow> string \<Rightarrow> string list \<Rightarrow> StateRecord" where
  "ex_record ident data h stores =
     \<lparr>rec_id = ident, rec_type = ''deployment'', rec_data = data, rec_hash = h,
      rec_version = number_one, rec_createdAt = ex_time, rec_updatedAt = ex_time, rec_syncedTo = stores\<rparr>"

text \<open>A manager with the given policy and clients that has imported the given records.\<close>

definition ex_manager :: "policy \<Rightarrow> bool \<Rightarrow> bool \<Rightarrow> record_map \<Rightarrow> StateManager" where
  "ex_manager p cf sf recs = importState (Some recs) None (initialize cf sf (createStateManager p))"

definition ex_env :: "kv_reply \<Rightarrow> sync_env" where
  "ex_env reply =
     \<lparr>kv_get = reply, crm_get = CrmFailed, cf_store = StoreOk, sf_store = StoreOk,
      t_merge = ''2026-01-02T00:00:00.000Z'', t_done = ''2026-01-02T00:00:01.000Z''\<rparr>"

definition ex_options :: "direction \<Rightarrow> SyncOptions" where
  "ex_options d = \<lparr>force = False, direction = Some d, includeTypes = None, excludeTypes = None\<rparr>"

text \<open>The records \<open>{env: "prod"}\<close> and \<open>{env: "staging"}\<close> under the id \<open>d1\<close>, each with the
  SHA-256 fingerprint of its data.\<close>

definition ex_prod :: "string list \<Rightarrow> StateRecord" where
  "ex_prod stores = ex_record ''d1'' [(''env'', JStr ''prod'')]
     ''fdf65bc0fcace2d9faa201074629f8b59f8fed36951697309a4df91be5b0261b'' stores"

definition ex_staging :: "string list \<Rightarrow> StateRecord" where
  "ex_staging stores = ex_record ''d1'' [(''env'', JStr ''staging'')]
     ''50189f0051e905b98cb344325662839db888944707b7303f18408fe8298fd842'' stores"

text \<open>A stored payload whose reported fingerprint is not that of its data.\<close>

definition ex_corrupted :: kv_payload where
  "ex_corrupted =
     \<lparr>p_data = \<lparr>rs_records = Some [(''d1'', ex_prod [])], rs_other = []\<rparr>, p_hash = ''corrupted''\<rparr>"

text \<open>A stored payload holding \<open>{env: "staging"}\<close> under \<open>d1\<close>, with its true fingerprint.\<close>

definition ex_remote :: kv_payload where
  "ex_remote =
     \<lparr>p_data = \<lparr>rs_records = Some [(''d1'', ex_staging [])], rs_other = []\<rparr>,
      p_hash = hashState (json_of_remote_state \<lparr>rs_records = Some [(''d1'', ex_staging [])], rs_other = []\<rparr>)\<rparr>"

definition ex_deployment :: StateRecord where
  "ex_deployment = ex_record ''d1'' [(''app'', JStr ''x''), (''env'', JStr ''prod'')]
     (hashState [(''app'', JStr ''x''), (''env'', JStr ''prod'')]) [''cloudflare'']"

definition ex_nested :: StateRecord where
  "ex_nested = ex_record ''d2'' ex_nested_prod (hashState ex_nested_prod) []"

definition ex_base64_options :: HashOptions where
  "ex_base64_options =
     \<lparr>algorithm = Some (Std Sha256), iterations = Some 1, salt = Some ''pepper'',
      encoding = Some Base64\<rparr>"

text \<open>A new manager after \<open>sync({direction: 'push'})\<close>.\<close>

definition ex_after_push :: StateManager where
  "ex_after_push = snd (sync ex_getTime (ex_options Push) (ex_env KvNoData) (createStateManager Latest))"

section \<open>Auxiliary notions for the pull phase\<close>

text \<open>The ids under which a stored payload holds records (the keys of \<open>remoteState.records\<close>).\<close>

definition remote_ids :: "kv_reply \<Rightarrow> string list" where
  "remote_ids reply =
     (case reply of
        KvParsed parsed \<Rightarrow> (case rs_records (p_data parsed) of None \<Rightarrow> [] | Some recs \<Rightarrow> map fst recs)
      | _ \<Rightarrow> [])"

text \<open>The entries that the loop of the Cloudflare pull runs over: none unless the payload was
  retrieved, is valid and has records.\<close>

definition merged_entries :: "kv_reply \<Rightarrow> (string \<times> StateRecord) list" where
  "merged_entries reply =
     (case retrieveState reply of
        Inr (Some kvData) \<Rightarrow>
          (if rv_valid kvData then case_option [] id (rs_records (rv_state kvData)) else [])
      | _ \<Rightarrow> [])"

text \<open>A remote entry is settled in a record map when pulling it again leaves the map as it
  is: the local record has the remote fingerprint, or the policy keeps the local record.\<close>

definition settled :: "(string \<Rightarrow> int option) \<Rightarrow> policy \<Rightarrow> record_map \<Rightarrow> string \<times> StateRecord \<Rightarrow> bool" where
  "settled g p recs e =
     (case Map_get recs (fst e) of
        None \<Rightarrow> False
      | Some l \<Rightarrow> rec_hash (snd e) = rec_hash l
                 \<or> snd (resolveConflict g p l (snd e)) = None
                 \<or> snd (resolveConflict g p l (snd e)) = Some l)"

text \<open>The conflict, if any, that the pull of a remote entry reports against a record map.\<close>

definition conflict_of ::
  "(string \<Rightarrow> int option) \<Rightarrow> policy \<Rightarrow> record_map \<Rightarrow> string \<times> StateRecord \<Rightarrow> StateConflict list"
where
  "conflict_of g p recs e =
     (case Map_get recs (fst e) of
        None \<Rightarrow> []
      | Some l \<Rightarrow>
          if rec_hash (snd e) \<noteq> rec_hash l
          then [\<lparr>recordId = fst e, field = ''data'', localValue = rec_data l,
                 remoteValue = rec_data (snd e),
                 resolution = fst (resolveConflict g p l (snd e))\<rparr>]
          else [])"

text \<open>The two pulls of \<open>pullFromRemote\<close> on the result and the record map.\<close>

definition pull_phases ::
  "(string \<Rightarrow> int option) \<Rightarrow> policy \<Rightarrow> bool \<Rightarrow> bool \<Rightarrow> sync_env \<Rightarrow> StateSyncResult \<times> record_map
    \<Rightarrow> StateSyncResult \<times> record_map"
where
  "pull_phases g p cf sf env acc =
     (let acc1 = (if cf then pull_cloudflare g p (kv_get env) acc else acc)
      in if sf then pull_salesforce (t_merge env) (crm_get env) acc1 else acc1)"

section \<open>Key order at every depth\<close>

text \<open>A value is well formed when the keys of each of its objects, at every depth, are
  distinct, as the keys of a JavaScript object are.\<close>

primrec wf_json :: "json \<Rightarrow> bool" where
  "wf_json JNull = True"
| "wf_json (JBool b) = True"
| "wf_json (JNum n) = True"
| "wf_json (JStr s) = True"
| "wf_json (JArr xs) = list_all id (map wf_json xs)"
| "wf_json (JObj ps) = (distinct (map fst ps) \<and> list_all id (map snd (map (map_prod id wf_json) ps)))"

text \<open>The canonical form of a value: the properties of every object sorted by key.  Two
  well-formed values with the same canonical form differ in the insertion order of their
  keys only.\<close>

primrec canon :: "json \<Rightarrow> json" where
  "canon JNull = JNull"
| "canon (JBool b) = JBool b"
| "canon (JNum n) = JNum n"
| "canon (JStr s) = JStr s"
| "canon (JArr xs) = JArr (map canon xs)"
| "canon (JObj ps) = JObj (sort_key fst (map (map_prod id canon) ps))"

section \<open>Lengths of digests\<close>

text \<open>A digest has a fixed length whatever the input: 32, 48 and 64 bytes, so 64 hexadecimal
  digits for a SHA-256 fingerprint.\<close>

lemma length_hex: "length (hex bs) = 2 * length bs"
  by (induction bs) (simp_all add: hex_def)

lemma length_word_bytes: "length (word_bytes (w :: 'a::len word)) = LENGTH('a) div 8"
  by (simp add: word_bytes_def)

lemma length_sha_round: "length (sha_round S0 S1 kw st) = length st"
  by (induction S0 S1 kw st rule: sha_round.induct) (simp_all add: Let_def)

lemma length_fold_sha_round: "length (fold (sha_round S0 S1) kws st) = length st"
  by (induction kws arbitrary: st) (simp_all add: length_sha_round)

lemma length_compress: "length (compress S0 S1 s0 s1 K blk hs) = length hs"
  by (simp add: compress_def Let_def length_fold_sha_round)

lemma length_fold_compress: "length (fold (compress S0 S1 s0 s1 K) blks hs) = length hs"
  by (induction blks arbitrary: hs) (simp_all add: length_compress)

lemma length_concat_word_bytes:
  "length (concat (map word_bytes (ws :: 'a::len word list))) = length ws * (LENGTH('a) div 8)"
  by (induction ws) (simp_all add: length_word_bytes)

lemma length_sha256_bytes: "length (sha256_bytes bs) = 32"
  by (simp add: sha256_bytes_def length_concat_word_bytes length_fold_compress H256_def)

lemma length_sha512_bytes: "length (sha512_bytes bs) = 64"
  by (simp add: sha512_bytes_def sha512_from_def length_concat_word_bytes length_fold_compress H512_def)

lemma length_sha384_bytes: "length (sha384_bytes bs) = 48"
  by (simp add: sha384_bytes_def sha512_from_def length_concat_word_bytes length_fold_compress H384_def)

lemma length_sha256_hex: "length (sha256 s Hex) = 64"
  by (simp add: sha256_def createHash_def length_hex length_sha256_bytes)

lemma length_hashState: "length (hashState d) = 64"
  by (simp add: hashState_def Let_def length_sha256_hex)

lemma hashState_nonempty: "hashState d \<noteq> []"
  using length_hashState [of d] by auto

lemma length_digest_bytes:
  "length (digest_bytes alg bs) = (case alg of Sha256 \<Rightarrow> 32 | Sha384 \<Rightarrow> 48 | Sha512 \<Rightarrow> 64)"
  by (cases alg) (simp_all add: length_sha256_bytes length_sha384_bytes length_sha512_bytes)

lemma length_base64_enc:
  "length (base64_enc al padded bs) = (if padded then 4 * ((length bs + 2) div 3) else (4 * length bs + 2) div 3)"
proof (induction al padded bs rule: base64_enc.induct)
  case (4 al padded a b c rest)
  have "(length rest + 5) div 3 = Suc ((length rest + 2) div 3)" by arith
  moreover have "(4 * length rest + 14) div 3 = 4 + (4 * length rest + 2) div 3" by arith
  ultimately show ?case using 4 by (simp add: add.commute)
qed simp_all

section \<open>Content fingerprints\<close>

text \<open>The property list of \<open>hashState\<close> holds the top-level keys only, and it filters the
  objects at every depth: two payloads that differ below the top level in a key that is not
  also a top-level key are serialized alike.\<close>

lemma nested_same_serialization:
  "JSON_stringify (JObj ex_nested_prod) (sort (Object_keys ex_nested_prod))
     = JSON_stringify (JObj ex_nested_staging) (sort (Object_keys ex_nested_staging))"
  by (simp add: ex_nested_prod_def ex_nested_staging_def JSON_stringify_def property_list_def
      Object_keys_def members_def)

lemma nested_same_fingerprint: "hashState ex_nested_staging = hashState ex_nested_prod"
  by (simp add: hashState_def nested_same_serialization)

text \<open>
  \<^bold>\<open>C1\<close> (every change to a record's data changes its fingerprint) fails on the code: the
  payloads \<open>{app: "x", config: {env: "prod"}}\<close> and \<open>{app: "x", config: {env: "staging"}}\<close>
  differ and have the same fingerprint, since both are hashed as \<open>{"app":"x","config":{}}\<close>.
\<close>

theorem hashState_nested_collision:
  "ex_nested_prod \<noteq> ex_nested_staging \<and> hashState ex_nested_prod = hashState ex_nested_staging"
  by (simp add: nested_same_fingerprint) (simp add: ex_nested_prod_def ex_nested_staging_def)

subsection \<open>Insertion order\<close>

lemma sort_keys_eq:
  assumes "distinct (xs :: string list)" "distinct ys" "set xs = set ys"
  shows "sort xs = sort ys"
  by (rule sorted_distinct_set_unique) (simp_all add: assms)

lemma map_of_map_prod: "map_of (map (map_prod id f) d) k = map_option f (map_of d k)"
  by (induction d) auto

lemma map_of_serialized:
  assumes "distinct (map fst d1)" "distinct (map fst d2)" "set d1 = set d2"
  shows "map_of (map (map_prod id f) d1) = map_of (map (map_prod id f) d2)"
proof -
  have "map_of d1 = map_of d2"
    using assms by (simp add: map_of_inject_set)
  then show ?thesis
    by (simp add: fun_eq_iff map_of_map_prod)
qed

lemma members_cong: "map_of ps = map_of qs \<Longrightarrow> members K ps = members K qs"
  by (simp add: members_def)

text \<open>
  \<^bold>\<open>C2\<close>: two data mappings with the same key-to-value pairs, whatever the order in which
  their keys were inserted, have the same fingerprint.  A mapping is a list of properties
  with distinct keys; same pairs means the same set of properties.
\<close>

theorem hashState_insertion_order:
  assumes "distinct (map fst d1)" and "distinct (map fst d2)" and "set d1 = set d2"
  shows "hashState d1 = hashState d2"
proof -
  have keys: "set (map fst d1) = set (map fst d2)"
    using assms(3) by simp
  have "sort (Object_keys d1) = sort (Object_keys d2)"
    unfolding Object_keys_def using assms(1,2) keys by (rule sort_keys_eq)
  moreover have "serialize K (JObj d1) = serialize K (JObj d2)" for K
    by (simp add: members_cong [OF map_of_serialized [OF assms]])
  ultimately show ?thesis
    by (simp add: hashState_def JSON_stringify_def)
qed

theorem hashState_insertion_order_witness:
  "hashState [(''app'', JStr ''x''), (''env'', JStr ''prod'')]
     = hashState [(''env'', JStr ''prod''), (''app'', JStr ''x'')]
   \<and> [(''app'', JStr ''x''), (''env'', JStr ''prod'')] \<noteq> [(''env'', JStr ''prod''), (''app'', JStr ''x'')]"
  using hashState_insertion_order
    [of "[(''app'', JStr ''x''), (''env'', JStr ''prod'')]" "[(''env'', JStr ''prod''), (''app'', JStr ''x'')]"]
  by auto

text \<open>The same holds when the insertion orders differ below the top level as well.\<close>

lemma map_of_sort_key:
  "distinct (map fst ys) \<Longrightarrow> map_of (sort_key fst ys) = map_of (ys :: (string \<times> 'a) list)"
  by (rule map_of_inject_set [THEN iffD2]) (simp_all add: distinct_map)

lemma serialize_canon: "wf_json v \<Longrightarrow> serialize K (canon v) = serialize K v"
proof (induction v)
  case (JArr xs)
  have elements: "map (serialize K) (map canon xs) = map (serialize K) xs"
    using JArr by (auto simp: list_all_iff)
  show ?case
    by (simp only: canon.simps serialize.simps elements)
next
  case (JObj ps)
  have d: "distinct (map fst ps)"
    using JObj.prems by simp
  have wf: "wf_json v" if "(k, v) \<in> set ps" for k v
    using JObj.prems that by (force simp: list_all_iff)
  have "map_of (map (map_prod id (serialize K)) (sort_key fst (map (map_prod id canon) ps))) k
          = map_of (map (map_prod id (serialize K)) ps) k" for k
  proof -
    have "map_of (map (map_prod id (serialize K)) (sort_key fst (map (map_prod id canon) ps))) k
            = map_option (serialize K) (map_of (sort_key fst (map (map_prod id canon) ps)) k)"
      by (rule map_of_map_prod)
    also have "map_of (sort_key fst (map (map_prod id canon) ps)) = map_of (map (map_prod id canon) ps)"
      using d by (intro map_of_sort_key) (simp add: comp_def)
    also have "map_option (serialize K) (map_of (map (map_prod id canon) ps) k)
                 = map_option (serialize K) (map_of ps k)"
    proof (cases "map_of ps k")
      case None
      then show ?thesis by (simp add: map_of_map_prod)
    next
      case (Some v)
      then have "(k, v) \<in> set ps" by (rule map_of_SomeD)
      then have "serialize K (canon v) = serialize K v"
        using JObj.IH [of "(k, v)" v] wf by auto
      then show ?thesis by (simp add: map_of_map_prod Some)
    qed
    also have "\<dots> = map_of (map (map_prod id (serialize K)) ps) k"
      by (rule map_of_map_prod [symmetric])
    finally show ?thesis .
  qed
  then have "map_of (map (map_prod id (serialize K)) (sort_key fst (map (map_prod id canon) ps)))
          = map_of (map (map_prod id (serialize K)) ps)"
    by (simp add: fun_eq_iff)
  then have "members K (map (map_prod id (serialize K)) (sort_key fst (map (map_prod id canon) ps)))
          = members K (map (map_prod id (serialize K)) ps)"
    by (rule members_cong)
  then show ?case
    by (simp only: canon.simps serialize.simps)
qed simp_all

lemma canon_keys:
  assumes "canon (JObj d1) = canon (JObj d2)"
  shows "set (map fst d1) = set (map fst d2)"
proof -
  have keys: "set (map fst (sort_key fst (map (map_prod id canon) d))) = set (map fst d)" for d
    by (simp add: comp_def image_image)
  have "sort_key fst (map (map_prod id canon) d1) = sort_key fst (map (map_prod id canon) d2)"
    using assms by simp
  then have "set (map fst (sort_key fst (map (map_prod id canon) d1)))
               = set (map fst (sort_key fst (map (map_prod id canon) d2)))"
    by (rule arg_cong)
  then show ?thesis
    by (simp only: keys)
qed

lemma hashState_insertion_order_deep:
  assumes "wf_json (JObj d1)" and "wf_json (JObj d2)" and "canon (JObj d1) = canon (JObj d2)"
  shows "hashState d1 = hashState d2"
proof -
  have "distinct (map fst d1)" "distinct (map fst d2)"
    using assms(1,2) by simp_all
  then have "sort (Object_keys d1) = sort (Object_keys d2)"
    unfolding Object_keys_def using canon_keys [OF assms(3)] by (rule sort_keys_eq)
  moreover have "serialize K (JObj d1) = serialize K (JObj d2)" for K
    using serialize_canon [OF assms(1), of K] serialize_canon [OF assms(2), of K] assms(3) by simp
  ultimately show ?thesis
    by (simp add: hashState_def JSON_stringify_def)
qed

section \<open>Hash verification\<close>

lemma generateSalt_nonempty: "generateSalt rnd 32 \<noteq> []"
proof -
  have "length (generateSalt rnd 32) = 64"
    by (simp add: generateSalt_def randomBytes_def length_hex)
  then show ?thesis by auto
qed

lemma timingSafeCompare_same: "timingSafeCompare a a = Some True"
  by (simp add: timingSafeCompare_def timingSafeEqual_def)

lemma iterate_hash_pos:
  "0 < i \<Longrightarrow> iterate_hash alg i s = createHash alg (iterate_hash alg (i - 1) s) Hex"
proof -
  assume "0 < i"
  then have "nat i = Suc (nat (i - 1))" by simp
  then show ?thesis by (simp add: iterate_hash_def)
qed

text \<open>
  \<^bold>\<open>C9\<close>, as the code has it: for every input, algorithm, iteration count and salt, and for the
  encoding \<open>hex\<close> (given or by default), \<open>verify\<close> accepts what \<open>hash\<close> returned, whatever
  randomness and clock the two calls see.  (\<open>verify\<close> recomputes in \<open>hex\<close>; the result of
  \<open>hash\<close> does not record its encoding.)
\<close>

theorem verify_hash_hex:
  assumes "encoding options = None \<or> encoding options = Some Hex"
  shows "verify rnd' ts' data (hash rnd ts data options)
           = Some \<lparr>valid = True, hv_hash = hash rnd ts data options, hv_input = data\<rparr>"
proof -
  obtain a i s e where wd: "with_defaults options = (a, i, s, e)"
    by (cases "with_defaults options") auto
  have e: "e = Hex"
    using assms wd by (auto simp: with_defaults_def)
  define salt' where "salt' = (if s = [] then generateSalt rnd 32 else s)"
  have ne: "salt' \<noteq> []"
    by (simp add: salt'_def generateSalt_nonempty)
  have h: "hash rnd ts data options =
      \<lparr>hr_hash = (case a of Sha_infinity \<Rightarrow> shaInfinity rnd data salt' i Hex
                    | Std alg \<Rightarrow> iterate_hash alg i (data @ '':'' @ salt')),
       hr_algorithm = a, hr_iterations = i, hr_salt = salt', hr_timestamp = ts\<rparr>"
    by (cases a) (simp_all add: hash_def wd e salt'_def Let_def)
  have inf: "shaInfinity rnd' data salt' i Hex = shaInfinity rnd data salt' i Hex"
    using ne by (simp add: shaInfinity_def)
  have "hr_hash (hash rnd' ts' data
          \<lparr>algorithm = Some a, iterations = Some i, salt = Some salt', encoding = Some Hex\<rparr>)
        = (case a of Sha_infinity \<Rightarrow> shaInfinity rnd data salt' i Hex
                    | Std alg \<Rightarrow> iterate_hash alg i (data @ '':'' @ salt'))"
    using ne by (cases a) (simp_all add: hash_def with_defaults_def Let_def inf)
  then show ?thesis
    by (simp add: verify_def Let_def h timingSafeCompare_same)
qed

theorem verify_hash_hex_witness:
  "(encoding (no_options\<lparr>salt := Some ''pepper''\<rparr>) = None
      \<or> encoding (no_options\<lparr>salt := Some ''pepper''\<rparr>) = Some Hex)
   \<and> verify ex_rnd 1767312000000 ''secret'' (hash ex_rnd 1767225600000 ''secret'' (no_options\<lparr>salt := Some ''pepper''\<rparr>))
     = Some \<lparr>valid = True,
             hv_hash = hash ex_rnd 1767225600000 ''secret'' (no_options\<lparr>salt := Some ''pepper''\<rparr>),
             hv_input = ''secret''\<rparr>"
proof -
  have h: "encoding (no_options\<lparr>salt := Some ''pepper''\<rparr>) = None
      \<or> encoding (no_options\<lparr>salt := Some ''pepper''\<rparr>) = Some Hex"
    by (simp add: no_options_def)
  from verify_hash_hex [OF h] h show ?thesis by blast
qed

text \<open>Decoding the hexadecimal digits of a byte sequence gives the bytes back.\<close>

lemma hexval_digits:
  "list_all (\<lambda>n. hexval (''0123456789abcdef'' ! n) = Some (of_nat n)) [0..<16]"
  by (simp add: eval_nat_numeral hexval_def)

lemma hexval_digit: "n < 16 \<Longrightarrow> hexval (''0123456789abcdef'' ! n) = Some (of_nat n)"
  using hexval_digits by (simp add: list_all_iff)

lemma hexval_hexdigit: "hexval (hexdigit x) = Some (x AND 15)"
proof -
  have "unat (x AND 15) \<le> unat (15 :: byte)"
    by (rule word_and_le1 [THEN word_le_nat_alt [THEN iffD1]])
  then have "unat (x AND 15) < 16" by simp
  then have "hexval (hexdigit x) = Some (of_nat (unat (x AND 15)))"
    unfolding hexdigit_def by (rule hexval_digit)
  then show ?thesis by simp
qed

lemma byte_of_nibbles: "push_bit 4 (drop_bit 4 b AND 15) OR (b AND 15) = (b :: byte)"
proof -
  have m: "(15 :: byte) = mask 4"
    by (simp add: mask_eq_exp_minus_1)
  show ?thesis
    unfolding m by (rule bit_word_eqI) (auto simp: bit_simps)
qed

lemma unhex_pair: "unhex (hexdigit (drop_bit 4 b) # hexdigit b # rest) = b # unhex rest"
  by (simp only: unhex.simps hexval_hexdigit prod.case option.case byte_of_nibbles)

lemma unhex_hex: "unhex (hex bs) = bs"
  by (induction bs) (simp_all add: hex_def unhex_pair del: unhex.simps(1))

text \<open>With the encoding \<open>base64\<close> the recomputed SHA-256 digest (64 hexadecimal digits) and
  the recorded one (44 characters) differ in length, and \<open>verify\<close> reports \<open>valid = false\<close>.\<close>

theorem verify_rejects_base64_hash:
  "map_option valid (verify ex_rnd 1767312000000 ''secret''
       (hash ex_rnd 1767225600000 ''secret'' ex_base64_options)) = Some False"
proof -
  have "length (hr_hash (hash ex_rnd 1767225600000 ''secret'' ex_base64_options)) = 44"
    by (simp add: hash_def with_defaults_def ex_base64_options_def Let_def iterate_hash_pos
        createHash_def unhex_hex length_base64_enc length_sha256_bytes)
  moreover have "length (hr_hash (hash ex_rnd 1767312000000 ''secret''
      \<lparr>algorithm = Some (hr_algorithm (hash ex_rnd 1767225600000 ''secret'' ex_base64_options)),
       iterations = Some (hr_iterations (hash ex_rnd 1767225600000 ''secret'' ex_base64_options)),
       salt = Some (hr_salt (hash ex_rnd 1767225600000 ''secret'' ex_base64_options)),
       encoding = Some Hex\<rparr>)) = 64"
    by (simp add: hash_def with_defaults_def ex_base64_options_def Let_def iterate_hash_pos
        createHash_def length_hex length_sha256_bytes)
  ultimately show ?thesis
    by (simp add: verify_def Let_def timingSafeCompare_def)
qed

section \<open>The record store\<close>

lemma map_of_Map_set: "map_of (Map_set k v m) = (map_of m)(k \<mapsto> v)"
  by (induction m) (auto simp: fun_eq_iff)

lemma Map_get_Map_set: "Map_get (Map_set k v m) k = Some v"
  by (simp add: Map_get_def map_of_Map_set)

lemma Map_get_Map_set_other: "k' \<noteq> k \<Longrightarrow> Map_get (Map_set k v m) k' = Map_get m k'"
  by (simp add: Map_get_def map_of_Map_set)

lemma Map_set_same: "map_of m k = Some v \<Longrightarrow> Map_set k v m = m"
  by (induction m) (auto split: if_splits)

text \<open>The order in which an object lists its properties leaves the value of each as it
  is.\<close>

lemma map_of_insort_fst: "map_of (insort_key (\<lambda>p. g (fst p)) x xs) = map_of (x # xs)"
  by (induction xs) (auto simp: fun_upd_twist)

lemma map_of_sort_fst: "map_of (sort_key (\<lambda>p. g (fst p)) xs) = map_of xs"
  by (induction xs) (simp_all add: map_of_insort_fst)

lemma map_of_filter_fst:
  "map_of (filter (\<lambda>p. P (fst p)) xs) k = (if P k then map_of xs k else None)"
  by (induction xs) auto

lemma map_of_partition_fst:
  assumes "\<And>k. Q k = (\<not> P k)"
  shows "map_of (filter (\<lambda>p. P (fst p)) ps @ filter (\<lambda>p. Q (fst p)) ps) = map_of ps"
proof
  fix k
  have p: "map_of (filter (\<lambda>p. P (fst p)) ps) k = (if P k then map_of ps k else None)"
    by (rule map_of_filter_fst)
  have q: "map_of (filter (\<lambda>p. Q (fst p)) ps) k = (if Q k then map_of ps k else None)"
    by (rule map_of_filter_fst)
  show "map_of (filter (\<lambda>p. P (fst p)) ps @ filter (\<lambda>p. Q (fst p)) ps) k = map_of ps k"
    unfolding map_of_append map_add_def p q by (simp add: assms split: option.split)
qed

lemma map_of_own_properties: "map_of (own_properties ps) = map_of ps"
proof -
  have "map_of (own_properties ps) =
          map_of (filter (\<lambda>p. array_index (fst p) \<noteq> None) ps
                    @ filter (\<lambda>p. array_index (fst p) = None) ps)"
    by (simp only: own_properties_def map_of_append map_of_sort_fst)
  also have "\<dots> = map_of ps"
    by (rule map_of_partition_fst [of "\<lambda>k. array_index k = None" "\<lambda>k. array_index k \<noteq> None"]) simp
  finally show ?thesis .
qed

lemma map_of_spread: "map_of (spread a b) = map_of a ++ map_of (rev b)"
  unfolding spread_def map_of_own_properties
proof (induction b arbitrary: a)
  case Nil
  show ?case by simp
next
  case (Cons p b)
  have "map_of (fold (\<lambda>p acc. Map_set (fst p) (snd p) acc) (p # b) a)
          = map_of (Map_set (fst p) (snd p) a) ++ map_of (rev b)"
    using Cons.IH [of "Map_set (fst p) (snd p) a"] by simp
  also have "map_of (Map_set (fst p) (snd p) a) = map_of a ++ map_of [p]"
    by (simp add: map_of_Map_set)
  also have "(map_of a ++ map_of [p]) ++ map_of (rev b) = map_of a ++ map_of (rev (p # b))"
    by (simp only: rev.simps map_of_append map_add_assoc)
  finally show ?case .
qed

lemma map_of_rev_distinct: "distinct (map fst xs) \<Longrightarrow> map_of (rev xs) = map_of xs"
  using map_of_inject_set [of "rev xs" xs] by (simp add: rev_map [symmetric])

lemma records_ex_manager: "records (localState (ex_manager p cf sf recs)) = recs"
  by (simp add: ex_manager_def importState_def updateLocalHash_def Let_def)

text \<open>
  What \<open>update\<close> does to a record \<open>r\<close> stored under \<open>ident\<close>, for partial data \<open>p\<close>: it returns
  a record whose data is the shallow merge of \<open>r\<close>'s data with \<open>p\<close> (a key of \<open>p\<close> takes its value
  from \<open>p\<close>, any other key keeps its value), whose fingerprint is \<open>hashState\<close> of the merged
  data, whose version is \<open>r.version + 1\<close> as a double (one more than \<open>r\<close>'s below \<open>2^53\<close>) and
  whose \<open>syncedTo\<close> is empty; the store holds this record under \<open>ident\<close>.
\<close>

theorem update_present:
  assumes "Map_get (records (localState m)) ident = Some r" and "distinct (map fst p)"
  shows "\<exists>r'. fst (update now ident p m) = Some r'
            \<and> map_of (rec_data r') = map_of (rec_data r) ++ map_of p
            \<and> rec_hash r' = hashState (rec_data r')
            \<and> rec_version r' = plus_one (rec_version r)
            \<and> (int_of_number (rec_version r) < 2 ^ 53 \<longrightarrow>
                 int_of_number (rec_version r') = int_of_number (rec_version r) + 1)
            \<and> rec_syncedTo r' = []
            \<and> Map_get (records (localState (snd (update now ident p m)))) ident = Some r'"
  using assms
  by (simp add: update_def Let_def updateLocalHash_def Map_get_Map_set map_of_spread
      map_of_rev_distinct plus_one.rep_eq)

theorem update_present_witness:
  "\<exists>r'. fst (update ex_time ''d1'' [(''env'', JStr ''staging'')]
              (ex_manager Latest False False [(''d1'', ex_deployment)])) = Some r'
     \<and> map_of (rec_data r') = map_of (rec_data ex_deployment) ++ map_of [(''env'', JStr ''staging'')]
     \<and> rec_hash r' = hashState (rec_data r')
     \<and> int_of_number (rec_version r') = 2
     \<and> rec_syncedTo r' = []
     \<and> Map_get (records (localState (snd (update ex_time ''d1'' [(''env'', JStr ''staging'')]
              (ex_manager Latest False False [(''d1'', ex_deployment)]))))) ''d1'' = Some r'"
proof -
  have h: "Map_get (records (localState (ex_manager Latest False False [(''d1'', ex_deployment)]))) ''d1''
             = Some ex_deployment"
    by (simp add: records_ex_manager Map_get_def)
  have d: "distinct (map fst [(''env'', JStr ''staging'')])"
    by simp
  have v: "int_of_number (rec_version ex_deployment) = 1"
    by (simp add: ex_deployment_def ex_record_def number_one.rep_eq)
  from update_present [OF h d, of ex_time] show ?thesis
    by (auto simp: v)
qed

text \<open>
  \<^bold>\<open>C7\<close> (the fingerprint of the updated record changes whenever the merge changes the
  data) fails on the code: on the record with the data \<open>{app: "x", config: {env: "prod"}}\<close>,
  \<open>update(id, {config: {env: "staging"}})\<close> returns the data
  \<open>{app: "x", config: {env: "staging"}}\<close>, which differs, with the fingerprint that the
  record had before: \<open>hashState\<close> serializes both payloads as \<open>{"app":"x","config":{}}\<close>.
\<close>

theorem update_nested_keeps_fingerprint:
  "map_option rec_data (fst (update ex_time ''d2'' [(''config'', JObj [(''env'', JStr ''staging'')])]
       (ex_manager Latest False False [(''d2'', ex_nested)]))) = Some ex_nested_staging
   \<and> ex_nested_staging \<noteq> rec_data ex_nested
   \<and> map_option rec_hash (fst (update ex_time ''d2'' [(''config'', JObj [(''env'', JStr ''staging'')])]
       (ex_manager Latest False False [(''d2'', ex_nested)]))) = Some (rec_hash ex_nested)"
proof -
  have "Map_get (records (localState (ex_manager Latest False False [(''d2'', ex_nested)]))) ''d2''
          = Some ex_nested"
    by (simp add: records_ex_manager Map_get_def)
  moreover have "spread ex_nested_prod [(''config'', JObj [(''env'', JStr ''staging'')])] = ex_nested_staging"
    by (simp add: spread_def own_properties_def array_index_def is_digit_def
        ex_nested_prod_def ex_nested_staging_def)
  moreover have "ex_nested_staging \<noteq> ex_nested_prod"
    by (simp add: ex_nested_prod_def ex_nested_staging_def)
  ultimately show ?thesis
    using nested_same_fingerprint
    by (simp add: update_def Let_def ex_nested_def ex_record_def)
qed

text \<open>
  \<^bold>\<open>C10\<close>: for an id that the store does not hold, \<open>update\<close> returns \<open>null\<close> and the manager is
  unchanged (records, \<open>lastSync\<close> and store hash included).
\<close>

theorem update_absent:
  "Map_get (records (localState m)) ident = None \<Longrightarrow> update now ident data m = (None, m)"
  by (simp add: update_def)

theorem update_absent_witness:
  "Map_get (records (localState (ex_manager Latest False False [(''d1'', ex_deployment)]))) ''d9'' = None
   \<and> update ex_time ''d9'' [(''env'', JStr ''staging'')] (ex_manager Latest False False [(''d1'', ex_deployment)])
     = (None, ex_manager Latest False False [(''d1'', ex_deployment)])"
proof -
  have h: "Map_get (records (localState (ex_manager Latest False False [(''d1'', ex_deployment)]))) ''d9'' = None"
    by (simp add: records_ex_manager Map_get_def)
  from update_absent [OF h] h show ?thesis by simp
qed

section \<open>Synchronisation\<close>

subsection \<open>A sync while one is in flight\<close>

text \<open>
  \<^bold>\<open>C4\<close>: when the in-progress flag is set, \<open>sync\<close> returns a failure that names the condition
  (\<open>success\<close> false, \<open>failed = ['Sync already in progress']\<close>) and leaves the manager, so its
  whole local state, unchanged.
\<close>

theorem sync_rejected_while_in_progress:
  "syncInProgress m \<Longrightarrow>
     sync getTime options env m =
       (\<lparr>success = False, synced = [], failed = [''Sync already in progress''], conflicts = []\<rparr>, m)"
  by (simp add: sync_def in_progress_result_def)

theorem sync_rejected_while_in_progress_witness:
  "syncInProgress ((ex_manager Latest True True [])\<lparr>syncInProgress := True\<rparr>)
   \<and> sync ex_getTime (ex_options Bidirectional) (ex_env KvNoData)
        ((ex_manager Latest True True [])\<lparr>syncInProgress := True\<rparr>)
     = (\<lparr>success = False, synced = [], failed = [''Sync already in progress''], conflicts = []\<rparr>,
        (ex_manager Latest True True [])\<lparr>syncInProgress := True\<rparr>)"
  using sync_rejected_while_in_progress
    [of "(ex_manager Latest True True [])\<lparr>syncInProgress := True\<rparr>" ex_getTime
        "ex_options Bidirectional" "ex_env KvNoData"]
  by simp

subsection \<open>A retrieved payload that fails verification\<close>

lemma pull_cloudflare_invalid:
  assumes "hashState (json_of_remote_state (p_data parsed)) \<noteq> p_hash parsed"
  shows "pull_cloudflare getTime p (KvParsed parsed) acc = acc"
  using assms by (simp add: pull_cloudflare_def retrieveState_def Let_def)

lemma pull_cloudflare_no_data: "pull_cloudflare getTime p KvNoData acc = acc"
  by (simp add: pull_cloudflare_def retrieveState_def)

lemma pullFromRemote_invalid:
  assumes "kv_get env = KvParsed parsed"
    and "hashState (json_of_remote_state (p_data parsed)) \<noteq> p_hash parsed"
  shows "pullFromRemote getTime env m = pullFromRemote getTime (env\<lparr>kv_get := KvNoData\<rparr>) m"
  by (simp add: pullFromRemote_def Let_def assms(1) pull_cloudflare_invalid [OF assms(2)]
      pull_cloudflare_no_data)

lemma pushToRemote_kv_get:
  "pushToRemote options (env\<lparr>kv_get := reply\<rparr>) m = pushToRemote options env m"
  by (simp add: pushToRemote_def Let_def)

text \<open>
  \<^bold>\<open>C3\<close>, as the code has it: when the payload retrieved from Cloudflare KV does not have the
  fingerprint it reports, the pull phase merges nothing from it and adds no entry to
  \<open>failed\<close>.  The result of \<open>pullFromRemote\<close> and the local state after it are those of the
  same pull on a manager without the Cloudflare client; and \<open>sync\<close>, whatever its direction,
  returns the result and leaves the manager that it does when the store holds no payload.
\<close>

theorem invalid_blob_skipped_silently:
  assumes "kv_get env = KvParsed parsed"
    and "hashState (json_of_remote_state (p_data parsed)) \<noteq> p_hash parsed"
  shows "fst (pullFromRemote getTime env m) = fst (pullFromRemote getTime env (m\<lparr>cloudflare := False\<rparr>))
       \<and> localState (snd (pullFromRemote getTime env m))
           = localState (snd (pullFromRemote getTime env (m\<lparr>cloudflare := False\<rparr>)))
       \<and> sync getTime options env m = sync getTime options (env\<lparr>kv_get := KvNoData\<rparr>) m"
proof -
  have "fst (pullFromRemote getTime env m) = fst (pullFromRemote getTime env (m\<lparr>cloudflare := False\<rparr>))"
    by (simp add: pullFromRemote_def Let_def assms(1) pull_cloudflare_invalid [OF assms(2)])
  moreover have "localState (snd (pullFromRemote getTime env m))
           = localState (snd (pullFromRemote getTime env (m\<lparr>cloudflare := False\<rparr>)))"
    by (simp add: pullFromRemote_def Let_def updateLocalHash_def assms(1)
        pull_cloudflare_invalid [OF assms(2)])
  moreover have "sync getTime options env m = sync getTime options (env\<lparr>kv_get := KvNoData\<rparr>) m"
    by (simp add: sync_def Let_def pullFromRemote_invalid [OF assms] pushToRemote_kv_get)
  ultimately show ?thesis by simp
qed

lemma ex_corrupted_invalid:
  "hashState (json_of_remote_state (p_data ex_corrupted)) \<noteq> p_hash ex_corrupted"
  using length_hashState [of "json_of_remote_state (p_data ex_corrupted)"]
  by (auto simp: ex_corrupted_def)

theorem invalid_blob_skipped_silently_witness:
  "hashState (json_of_remote_state (p_data ex_corrupted)) \<noteq> p_hash ex_corrupted
   \<and> fst (pullFromRemote ex_getTime (ex_env (KvParsed ex_corrupted)) (ex_manager Latest True True []))
     = fst (pullFromRemote ex_getTime (ex_env (KvParsed ex_corrupted))
             ((ex_manager Latest True True [])\<lparr>cloudflare := False\<rparr>))
   \<and> localState (snd (pullFromRemote ex_getTime (ex_env (KvParsed ex_corrupted))
             (ex_manager Latest True True [])))
     = localState (snd (pullFromRemote ex_getTime (ex_env (KvParsed ex_corrupted))
             ((ex_manager Latest True True [])\<lparr>cloudflare := False\<rparr>)))
   \<and> sync ex_getTime \<lparr>force = False, direction = None, includeTypes = None, excludeTypes = None\<rparr>
         (ex_env (KvParsed ex_corrupted)) (ex_manager Latest True True [])
     = sync ex_getTime \<lparr>force = False, direction = None, includeTypes = None, excludeTypes = None\<rparr>
         (ex_env KvNoData) (ex_manager Latest True True [])"
proof -
  have 1: "kv_get (ex_env (KvParsed ex_corrupted)) = KvParsed ex_corrupted"
    by (simp add: ex_env_def)
  have 2: "(ex_env (KvParsed ex_corrupted))\<lparr>kv_get := KvNoData\<rparr> = ex_env KvNoData"
    by (simp add: ex_env_def)
  from invalid_blob_skipped_silently [OF 1 ex_corrupted_invalid, of ex_getTime "ex_manager Latest True True []"
      "\<lparr>force = False, direction = None, includeTypes = None, excludeTypes = None\<rparr>"]
    ex_corrupted_invalid
  show ?thesis unfolding 2 by blast
qed

text \<open>No integrity failure is reported: with Cloudflare as the only store and a corrupted
  payload, \<open>failed\<close> is empty and \<open>success\<close> is true.\<close>

theorem no_integrity_failure_reported:
  "hashState (json_of_remote_state (p_data ex_corrupted)) \<noteq> p_hash ex_corrupted
   \<and> failed (fst (sync ex_getTime (ex_options Pull) (ex_env (KvParsed ex_corrupted))
                 (ex_manager Latest True False []))) = []
   \<and> success (fst (sync ex_getTime (ex_options Pull) (ex_env (KvParsed ex_corrupted))
                 (ex_manager Latest True False [])))"
proof -
  have "pull_cloudflare g p (KvParsed ex_corrupted) acc = acc" for g p acc
    using ex_corrupted_invalid by (simp add: pull_cloudflare_invalid)
  then show ?thesis
    using ex_corrupted_invalid
    by (simp add: sync_def Let_def pullFromRemote_def ex_manager_def ex_options_def ex_env_def
        importState_def initialize_def createStateManager_def updateLocalHash_def empty_result_def)
qed

subsection \<open>The records that a push selects\<close>

lemma needs_sync_iff:
  "needs_sync options r = (passes_type_filter options r \<and> (force options \<or> length (rec_syncedTo r) < 2))"
  by (simp add: needs_sync_def passes_type_filter_def split: option.splits)

lemma recordsToSync_eq:
  "recordsToSync options recs =
     filter (\<lambda>r. passes_type_filter options r \<and> (force options \<or> length (rec_syncedTo r) < 2))
       (Map_values recs)"
  unfolding recordsToSync_def by (rule filter_cong) (simp_all add: needs_sync_iff)










subsection \<open>The store-wide hash\<close>

text \<open>Each of \<open>create\<close>, \<open>importState\<close> and the pull ends with \<open>updateLocalHash\<close>, after which
  the store hash is the fingerprint of the records and \<open>lastSync\<close>.\<close>

lemma updateLocalHash_current:
  "store_hash (localState (updateLocalHash m)) = hashState (stateData (localState (updateLocalHash m)))"
  by (simp add: updateLocalHash_def stateData_def)

lemma create_hash_current:
  "store_hash (localState (snd (create rnd ts now type data m)))
     = hashState (stateData (localState (snd (create rnd ts now type data m))))"
  by (simp add: create_def Let_def updateLocalHash_current)

lemma importState_hash_current:
  "store_hash (localState (importState recs ls m)) = hashState (stateData (localState (importState recs ls m)))"
  by (simp add: importState_def Let_def updateLocalHash_current)

lemma pullFromRemote_hash_current:
  "store_hash (localState (snd (pullFromRemote getTime env m)))
     = hashState (stateData (localState (snd (pullFromRemote getTime env m))))"
  by (simp add: pullFromRemote_def Let_def updateLocalHash_current)

text \<open>\<open>sync\<close> sets \<open>lastSync\<close> after the pull has computed the hash, and does not compute it
  again: the hash is then that of the earlier \<open>lastSync\<close>.\<close>

lemma sync_pull_hash_stale:
  assumes "\<not> syncInProgress m" and "direction options = Some Pull"
  shows "store_hash (localState (snd (sync getTime options env m)))
           = hashState (stateData ((localState (snd (sync getTime options env m)))
                \<lparr>lastSync := lastSync (localState m)\<rparr>))
       \<and> lastSync (localState (snd (sync getTime options env m))) = t_done env"
  using assms
  by (simp add: sync_def Let_def pullFromRemote_def updateLocalHash_def stateData_def)

text \<open>
  \<^bold>\<open>C8\<close> (the store hash is the fingerprint of the records and \<open>lastSync\<close> after every
  mutation, the completion of \<open>sync\<close> included) fails on the code: after a first
  \<open>sync({direction: 'push'})\<close> of a new manager, \<open>lastSync\<close> is set and the hash that
  \<open>getSyncStatus\<close> reports is still the empty string.
\<close>

theorem sync_leaves_hash_behind:
  "lastSync (localState ex_after_push) = ''2026-01-02T00:00:01.000Z''
   \<and> st_hash (getSyncStatus ex_after_push) = []
   \<and> st_hash (getSyncStatus ex_after_push) \<noteq> hashState (stateData (localState ex_after_push))"
proof -
  have "st_hash (getSyncStatus ex_after_push) = []"
    by (simp add: ex_after_push_def sync_def Let_def pushToRemote_def getSyncStatus_def
        createStateManager_def ex_options_def ex_env_def empty_result_def)
  moreover have "lastSync (localState ex_after_push) = ''2026-01-02T00:00:01.000Z''"
    by (simp add: ex_after_push_def sync_def Let_def pushToRemote_def
        createStateManager_def ex_options_def ex_env_def empty_result_def)
  ultimately show ?thesis
    using hashState_nonempty [of "stateData (localState ex_after_push)"] by simp
qed

subsection \<open>Pulling twice\<close>

lemma pull_record_new:
  "Map_get recs ident = None \<Longrightarrow>
     snd (pull_record g p (ident, r) (res, recs)) = Map_set ident (r\<lparr>rec_syncedTo := [''cloudflare'']\<rparr>) recs"
  by (simp add: pull_record_def)

lemma pull_record_same:
  "Map_get recs ident = Some l \<Longrightarrow> rec_hash r = rec_hash l \<Longrightarrow>
     pull_record g p (ident, r) (res, recs) = (res, recs)"
  by (simp add: pull_record_def)

lemma pull_record_unresolved:
  "Map_get recs ident = Some l \<Longrightarrow> rec_hash r \<noteq> rec_hash l \<Longrightarrow>
   snd (resolveConflict g p l r) = None \<Longrightarrow>
     snd (pull_record g p (ident, r) (res, recs)) = recs"
  by (cases "resolveConflict g p l r") (simp add: pull_record_def Let_def)

lemma pull_record_resolved:
  "Map_get recs ident = Some l \<Longrightarrow> rec_hash r \<noteq> rec_hash l \<Longrightarrow>
   snd (resolveConflict g p l r) = Some l' \<Longrightarrow>
     snd (pull_record g p (ident, r) (res, recs)) = Map_set ident l' recs"
  by (cases "resolveConflict g p l r") (simp add: pull_record_def Let_def)

lemma pull_record_cases:
  obtains (new) "Map_get recs ident = None"
  | (same) l where "Map_get recs ident = Some l" "rec_hash r = rec_hash l"
  | (unresolved) l where "Map_get recs ident = Some l" "rec_hash r \<noteq> rec_hash l"
      "snd (resolveConflict g p l r) = None"
  | (resolved) l l' where "Map_get recs ident = Some l" "rec_hash r \<noteq> rec_hash l"
      "snd (resolveConflict g p l r) = Some l'"
  by (cases "Map_get recs ident"; cases "snd (resolveConflict g p (the (Map_get recs ident)) r)") auto

lemma pull_record_settled_records:
  assumes "settled g p recs e"
  shows "snd (pull_record g p e (res, recs)) = recs"
proof (cases e)
  case (Pair ident r)
  show ?thesis
  proof (cases rule: pull_record_cases [where recs=recs and ident=ident and r=r and g=g and p=p])
    case new
    then show ?thesis using assms by (simp add: Pair settled_def)
  next
    case (same l)
    then show ?thesis by (simp add: Pair pull_record_same)
  next
    case (unresolved l)
    then show ?thesis by (simp add: Pair pull_record_unresolved)
  next
    case (resolved l l')
    then have "l' = l"
      using assms by (simp add: Pair settled_def)
    then show ?thesis
      using resolved by (simp add: Pair pull_record_resolved Map_set_same Map_get_def)
  qed
qed

lemma fold_pull_record_settled:
  "list_all (settled g p recs) rem \<Longrightarrow> snd (fold (pull_record g p) rem (res, recs)) = recs"
proof (induction rem arbitrary: res)
  case Nil
  show ?case by simp
next
  case (Cons e rem)
  obtain res' where step: "pull_record g p e (res, recs) = (res', recs)"
    using pull_record_settled_records [of g p recs e res] Cons.prems
    by (cases "pull_record g p e (res, recs)") auto
  show ?case
    using Cons.IH [of res'] Cons.prems by (simp add: step)
qed

lemma resolveConflict_again:
  "snd (resolveConflict g p l r) = Some l' \<Longrightarrow> l' \<noteq> l \<Longrightarrow>
     l' = r\<lparr>rec_syncedTo := [''cloudflare'', ''salesforce'']\<rparr>"
  by (cases p) (simp_all add: resolveConflict_def split: if_splits)

lemma pull_record_settles: "settled g p (snd (pull_record g p e acc)) e"
proof (cases e, cases acc)
  fix ident r res recs
  assume e: "e = (ident, r)" and acc: "acc = (res, recs)"
  show ?thesis
  proof (cases rule: pull_record_cases [where recs=recs and ident=ident and r=r and g=g and p=p])
    case new
    then show ?thesis
      by (simp add: e acc pull_record_new settled_def Map_get_Map_set)
  next
    case (same l)
    then show ?thesis
      by (simp add: e acc pull_record_same settled_def)
  next
    case (unresolved l)
    then show ?thesis
      by (simp add: e acc pull_record_unresolved settled_def)
  next
    case (resolved l l')
    show ?thesis
    proof (cases "l' = l")
      case True
      then show ?thesis
        using resolved by (simp add: e acc pull_record_resolved settled_def Map_get_Map_set)
    next
      case False
      then have "rec_hash l' = rec_hash r"
        using resolveConflict_again [OF resolved(3)] by simp
      then show ?thesis
        using resolved by (simp add: e acc pull_record_resolved settled_def Map_get_Map_set)
    qed
  qed
qed

lemma pull_record_other_key:
  assumes "k \<noteq> fst e"
  shows "Map_get (snd (pull_record g p e acc)) k = Map_get (snd acc) k"
proof (cases e, cases acc)
  fix ident r res recs
  assume e: "e = (ident, r)" and acc: "acc = (res, recs)"
  have k: "k \<noteq> ident" using assms e by simp
  show ?thesis
    by (cases rule: pull_record_cases [where recs=recs and ident=ident and r=r and g=g and p=p])
       (simp_all add: e acc pull_record_new pull_record_same pull_record_unresolved
          pull_record_resolved Map_get_Map_set_other [OF k])
qed

lemma fold_pull_record_other_key:
  "k \<notin> fst ` set rem \<Longrightarrow> Map_get (snd (fold (pull_record g p) rem acc)) k = Map_get (snd acc) k"
  by (induction rem arbitrary: acc) (simp_all add: pull_record_other_key)

lemma settled_cong: "Map_get recs' (fst e) = Map_get recs (fst e) \<Longrightarrow> settled g p recs' e = settled g p recs e"
  by (simp add: settled_def)

lemma fold_pull_record_settles:
  "distinct (map fst rem) \<Longrightarrow> list_all (settled g p (snd (fold (pull_record g p) rem acc))) rem"
proof (induction rem arbitrary: acc)
  case Nil
  show ?case by simp
next
  case (Cons e rem)
  have "fst e \<notin> fst ` set rem"
    using Cons.prems by auto
  then have "Map_get (snd (fold (pull_record g p) rem (pull_record g p e acc))) (fst e)
               = Map_get (snd (pull_record g p e acc)) (fst e)"
    by (rule fold_pull_record_other_key)
  then have "settled g p (snd (fold (pull_record g p) rem (pull_record g p e acc))) e
               = settled g p (snd (pull_record g p e acc)) e"
    by (rule settled_cong)
  then have "settled g p (snd (fold (pull_record g p) rem (pull_record g p e acc))) e"
    using pull_record_settles [of g p e acc] by simp
  moreover have "list_all (settled g p (snd (fold (pull_record g p) rem (pull_record g p e acc)))) rem"
    using Cons.prems by (intro Cons.IH) simp
  ultimately show ?case by simp
qed

lemma settled_Remote_same_hash:
  assumes "settled g Remote recs (ident, r)"
  shows "\<exists>l. Map_get recs ident = Some l \<and> rec_hash r = rec_hash l"
proof (cases "Map_get recs ident")
  case None
  then show ?thesis using assms by (simp add: settled_def)
next
  case (Some l)
  have "rec_hash r = rec_hash l \<or> r\<lparr>rec_syncedTo := [''cloudflare'', ''salesforce'']\<rparr> = l"
    using assms Some by (simp add: settled_def resolveConflict_def)
  then have "rec_hash r = rec_hash l"
    by (cases "rec_hash r = rec_hash l") auto
  then show ?thesis using Some by simp
qed

lemma pull_record_remote_settled:
  "settled g Remote recs e \<Longrightarrow> pull_record g Remote e (res, recs) = (res, recs)"
  using settled_Remote_same_hash [of g recs "fst e" "snd e"]
  by (cases e) (auto simp: pull_record_same)

lemma fold_pull_record_remote_settled:
  "list_all (settled g Remote recs) rem \<Longrightarrow> fold (pull_record g Remote) rem (res, recs) = (res, recs)"
  by (induction rem) (simp_all add: pull_record_remote_settled)

lemma snd_pull_cloudflare:
  "snd (pull_cloudflare g p reply (res, recs)) = snd (fold (pull_record g p) (merged_entries reply) (res, recs))"
  by (simp add: pull_cloudflare_def merged_entries_def split: sum.splits option.splits)

lemma distinct_merged_entries: "distinct (remote_ids reply) \<Longrightarrow> distinct (map fst (merged_entries reply))"
  by (cases reply)
     (simp_all add: remote_ids_def merged_entries_def retrieveState_def Let_def split: option.splits)

lemma pull_cloudflare_settles:
  "distinct (remote_ids reply) \<Longrightarrow>
     list_all (settled g p (snd (pull_cloudflare g p reply acc))) (merged_entries reply)"
  by (cases acc) (simp add: snd_pull_cloudflare fold_pull_record_settles distinct_merged_entries)

lemma pull_cloudflare_settled:
  "list_all (settled g p recs) (merged_entries reply) \<Longrightarrow>
     snd (pull_cloudflare g p reply (res, recs)) = recs"
  by (simp add: snd_pull_cloudflare fold_pull_record_settled)

lemma pull_cloudflare_remote_settled:
  "list_all (settled g Remote recs) (merged_entries reply) \<Longrightarrow>
     conflicts (fst (pull_cloudflare g Remote reply (res, recs))) = conflicts res"
  by (auto simp: pull_cloudflare_def merged_entries_def fold_pull_record_remote_settled
      split: sum.splits option.splits if_splits)

lemma merge_crm_keeps:
  assumes "Map_get recs k = Some l"
  shows "Map_get (merge_crm now ty a recs) k = Some l"
proof (cases "Map_has recs (ty @ ''_'' @ sf_Id a)")
  case True
  then show ?thesis using assms by (simp add: merge_crm_def)
next
  case False
  then have "k \<noteq> ty @ ''_'' @ sf_Id a"
    using assms by (auto simp: Map_has_def Map_get_def)
  then show ?thesis
    using assms False by (simp add: merge_crm_def Let_def Map_get_Map_set_other)
qed

lemma fold_merge_crm_keeps:
  "Map_get recs k = Some l \<Longrightarrow> Map_get (fold (merge_crm now ty) as recs) k = Some l"
  by (induction as arbitrary: recs) (simp_all add: merge_crm_keeps)

lemma mergeCRMState_keeps:
  "Map_get recs k = Some l \<Longrightarrow> Map_get (mergeCRMState now crm recs) k = Some l"
  by (simp add: mergeCRMState_def fold_merge_crm_keeps)

lemma Map_has_iff: "Map_has recs k = (\<exists>l. Map_get recs k = Some l)"
  by (simp add: Map_has_def Map_get_def)

lemma merge_crm_has: "Map_has (merge_crm now ty a recs) (ty @ ''_'' @ sf_Id a)"
  by (simp add: merge_crm_def Let_def Map_has_def map_of_Map_set)

lemma fold_merge_crm_has_kept:
  "Map_has recs k \<Longrightarrow> Map_has (fold (merge_crm now ty) as recs) k"
  using fold_merge_crm_keeps by (fastforce simp: Map_has_iff)

lemma fold_merge_crm_has:
  "a \<in> set as \<Longrightarrow> Map_has (fold (merge_crm now ty) as recs) (ty @ ''_'' @ sf_Id a)"
proof (induction as arbitrary: recs)
  case Nil
  then show ?case by simp
next
  case (Cons b as)
  show ?case
  proof (cases "a = b")
    case True
    have "Map_has (fold (merge_crm now ty) as (merge_crm now ty b recs)) (ty @ ''_'' @ sf_Id b)"
      by (rule fold_merge_crm_has_kept) (rule merge_crm_has)
    then show ?thesis
      using True by simp
  next
    case False
    then show ?thesis
      using Cons by simp
  qed
qed

lemma fold_merge_crm_idle:
  "list_all (\<lambda>a. Map_has recs (ty @ ''_'' @ sf_Id a)) as \<Longrightarrow> fold (merge_crm now ty) as recs = recs"
  by (induction as) (simp_all add: merge_crm_def Let_def)

lemma mergeCRMState_again:
  "mergeCRMState now' crm (mergeCRMState now crm recs) = mergeCRMState now crm recs"
proof -
  define A where "A = fold (merge_crm now ''crm_account'') (accounts crm) recs"
  define B where "B = fold (merge_crm now ''crm_contact'') (contacts crm) A"
  define C where "C = fold (merge_crm now ''crm_opportunity'') (opportunities crm) B"
  have C: "mergeCRMState now crm recs = C"
    by (simp add: mergeCRMState_def A_def B_def C_def)
  have "list_all (\<lambda>a. Map_has C (''crm_account'' @ ''_'' @ sf_Id a)) (accounts crm)"
    unfolding list_all_iff C_def B_def A_def
    by (intro ballI fold_merge_crm_has_kept fold_merge_crm_has)
  then have 1: "fold (merge_crm now' ''crm_account'') (accounts crm) C = C"
    by (rule fold_merge_crm_idle)
  have "list_all (\<lambda>a. Map_has C (''crm_contact'' @ ''_'' @ sf_Id a)) (contacts crm)"
    unfolding list_all_iff C_def B_def
    by (intro ballI fold_merge_crm_has_kept fold_merge_crm_has)
  then have 2: "fold (merge_crm now' ''crm_contact'') (contacts crm) C = C"
    by (rule fold_merge_crm_idle)
  have "list_all (\<lambda>a. Map_has C (''crm_opportunity'' @ ''_'' @ sf_Id a)) (opportunities crm)"
    unfolding list_all_iff C_def
    by (intro ballI fold_merge_crm_has)
  then have 3: "fold (merge_crm now' ''crm_opportunity'') (opportunities crm) C = C"
    by (rule fold_merge_crm_idle)
  show ?thesis
    unfolding C by (simp only: mergeCRMState_def 1 2 3)
qed

lemma snd_pull_salesforce:
  "snd (pull_salesforce now reply (res, recs)) =
     (case reply of CrmOk crm \<Rightarrow> mergeCRMState now crm recs | _ \<Rightarrow> recs)"
  by (simp add: pull_salesforce_def split: crm_reply.splits)

lemma conflicts_pull_salesforce:
  "conflicts (fst (pull_salesforce now reply acc)) = conflicts (fst acc)"
  by (cases acc) (simp add: pull_salesforce_def split: crm_reply.splits)

lemma pull_salesforce_keeps_settled:
  assumes "settled g p recs e"
  shows "settled g p (snd (pull_salesforce now reply (res, recs))) e"
proof -
  obtain l where l: "Map_get recs (fst e) = Some l"
    using assms by (cases "Map_get recs (fst e)") (simp_all add: settled_def)
  have "Map_get (snd (pull_salesforce now reply (res, recs))) (fst e) = Map_get recs (fst e)"
    by (cases reply) (simp_all add: snd_pull_salesforce l mergeCRMState_keeps)
  then have "settled g p (snd (pull_salesforce now reply (res, recs))) e = settled g p recs e"
    by (rule settled_cong)
  then show ?thesis using assms by simp
qed

lemma pull_salesforce_keeps_settled_acc:
  "settled g p (snd acc) e \<Longrightarrow> settled g p (snd (pull_salesforce now reply acc)) e"
  by (cases acc) (simp add: pull_salesforce_keeps_settled)

lemma pull_salesforce_again:
  "snd (pull_salesforce now' reply (res', snd (pull_salesforce now reply acc)))
     = snd (pull_salesforce now reply acc)"
  by (cases acc; cases reply) (simp_all add: snd_pull_salesforce mergeCRMState_again)

lemma pull_phases_twice:
  assumes "distinct (remote_ids (kv_get env))"
    and "kv_get env' = kv_get env" and "crm_get env' = crm_get env"
  shows "snd (pull_phases g p cf sf env' (res', snd (pull_phases g p cf sf env (res, recs))))
           = snd (pull_phases g p cf sf env (res, recs))"
    and "p = Remote \<Longrightarrow>
         conflicts (fst (pull_phases g p cf sf env' (res', snd (pull_phases g p cf sf env (res, recs)))))
           = conflicts res'"
proof -
  define E where "E = (if cf then merged_entries (kv_get env) else [])"
  define acc1 where "acc1 = (if cf then pull_cloudflare g p (kv_get env) (res, recs) else (res, recs))"
  define R1 where "R1 = snd (pull_phases g p cf sf env (res, recs))"
  have R1: "R1 = (if sf then snd (pull_salesforce (t_merge env) (crm_get env) (fst acc1, snd acc1))
                  else snd acc1)"
    by (simp add: R1_def pull_phases_def acc1_def Let_def)
  have "list_all (settled g p (snd acc1)) E"
    using assms(1) by (simp add: E_def acc1_def pull_cloudflare_settles)
  then have settled: "list_all (settled g p R1) E"
    unfolding R1 list_all_iff by (auto intro: pull_salesforce_keeps_settled_acc)
  define acc1' where "acc1' = (if cf then pull_cloudflare g p (kv_get env) (res', R1) else (res', R1))"
  have snd1': "snd acc1' = R1"
    using settled by (cases cf) (simp_all add: acc1'_def E_def pull_cloudflare_settled)
  have acc1': "acc1' = (fst acc1', R1)"
    using snd1' by (cases acc1') simp
  have again: "sf \<Longrightarrow> snd (pull_salesforce (t_merge env') (crm_get env) (fst acc1', R1)) = R1"
    by (simp add: R1 pull_salesforce_again)
  have phases': "pull_phases g p cf sf env' (res', R1)
      = (if sf then pull_salesforce (t_merge env') (crm_get env) (fst acc1', R1) else acc1')"
    using acc1' by (simp add: pull_phases_def acc1'_def assms(2,3) Let_def)
  show "snd (pull_phases g p cf sf env' (res', snd (pull_phases g p cf sf env (res, recs))))
           = snd (pull_phases g p cf sf env (res, recs))"
    unfolding R1_def [symmetric] phases' using again snd1' by simp
  assume "p = Remote"
  then have "conflicts (fst acc1') = conflicts res'"
    using settled by (cases cf) (simp_all add: acc1'_def E_def pull_cloudflare_remote_settled)
  then show "conflicts (fst (pull_phases g p cf sf env' (res', snd (pull_phases g p cf sf env (res, recs)))))
           = conflicts res'"
    unfolding R1_def [symmetric] phases' using acc1'
    by (simp add: conflicts_pull_salesforce)
qed

lemma sync_pull:
  assumes "\<not> syncInProgress m" and "direction options = Some Pull"
  shows "conflicts (fst (sync g options env m))
           = conflicts (fst (pull_phases g (conflictResolution m) (cloudflare m) (salesforce m) env
               (empty_result, records (localState m))))"
    and "records (localState (snd (sync g options env m)))
           = snd (pull_phases g (conflictResolution m) (cloudflare m) (salesforce m) env
               (empty_result, records (localState m)))"
    and "conflictResolution (snd (sync g options env m)) = conflictResolution m"
    and "cloudflare (snd (sync g options env m)) = cloudflare m"
    and "salesforce (snd (sync g options env m)) = salesforce m"
    and "\<not> syncInProgress (snd (sync g options env m))"
  using assms
  by (simp_all add: sync_def pullFromRemote_def pull_phases_def updateLocalHash_def Let_def)

text \<open>The conflicts that a pull reports are those of its entries against the records
  before the pull; after the pull, an entry is in conflict again exactly when the conflict
  was not resolved in favour of the remote record.\<close>

lemma conflict_of_cong:
  "Map_get recs' (fst e) = Map_get recs (fst e) \<Longrightarrow> conflict_of g p recs' e = conflict_of g p recs e"
  by (simp add: conflict_of_def)

lemma conflicts_pull_record:
  "conflicts (fst (pull_record g p e (res, recs))) = conflicts res @ conflict_of g p recs e"
proof (cases e)
  case (Pair ident r)
  show ?thesis
  proof (cases "Map_get recs ident")
    case None
    then show ?thesis by (simp add: Pair pull_record_def conflict_of_def)
  next
    case (Some l)
    show ?thesis
    proof (cases "rec_hash r = rec_hash l")
      case True
      then show ?thesis using Some by (simp add: Pair pull_record_def conflict_of_def)
    next
      case False
      obtain x y where xy: "resolveConflict g p l r = (x, y)"
        by (cases "resolveConflict g p l r")
      show ?thesis
        using Some False
        by (cases y) (simp_all add: Pair pull_record_def conflict_of_def xy Let_def)
    qed
  qed
qed

lemma conflict_of_settle:
  "conflict_of g p (snd (pull_record g p e (res, recs))) e
     = filter (\<lambda>c. resolution c \<noteq> Some ResRemote) (conflict_of g p recs e)"
proof (cases e)
  case (Pair ident r)
  show ?thesis
  proof (cases "Map_get recs ident")
    case None
    then show ?thesis
      by (simp add: Pair pull_record_def conflict_of_def Map_get_Map_set)
  next
    case (Some l)
    show ?thesis
    proof (cases "rec_hash r = rec_hash l")
      case True
      then show ?thesis using Some by (simp add: Pair pull_record_def conflict_of_def)
    next
      case False
      have keep: "resolveConflict g p l r = (x, Some l) \<Longrightarrow> x \<noteq> Some ResRemote \<Longrightarrow> ?thesis" for x
        using Some False
        by (simp add: Pair pull_record_def conflict_of_def Let_def Map_get_Map_set)
      have take: "resolveConflict g p l r
                    = (Some ResRemote, Some (r\<lparr>rec_syncedTo := [''cloudflare'', ''salesforce'']\<rparr>))
                  \<Longrightarrow> ?thesis"
        using Some False
        by (simp add: Pair pull_record_def conflict_of_def Let_def Map_get_Map_set)
      have none: "resolveConflict g p l r = (None, None) \<Longrightarrow> ?thesis"
        using Some False
        by (simp add: Pair pull_record_def conflict_of_def Let_def)
      show ?thesis
      proof (cases p)
        case Local
        then show ?thesis by (intro keep [of "Some ResLocal"]) (simp_all add: resolveConflict_def)
      next
        case Remote
        then show ?thesis by (intro take) (simp add: resolveConflict_def)
      next
        case Manual
        then show ?thesis by (intro none) (simp add: resolveConflict_def)
      next
        case Latest
        show ?thesis
        proof (cases "time_ge (g (rec_updatedAt l)) (g (rec_updatedAt r))")
          case True
          then show ?thesis
            using Latest by (intro keep [of "Some ResLocal"]) (simp_all add: resolveConflict_def)
        next
          case False
          then show ?thesis
            using Latest by (intro take) (simp add: resolveConflict_def)
        qed
      qed
    qed
  qed
qed

lemma conflicts_fold_pull_record:
  "distinct (map fst rem) \<Longrightarrow>
     conflicts (fst (fold (pull_record g p) rem (res, recs)))
       = conflicts res @ concat (map (conflict_of g p recs) rem)"
proof (induction rem arbitrary: res recs)
  case Nil
  show ?case by simp
next
  case (Cons e rem)
  obtain res1 recs1 where step: "pull_record g p e (res, recs) = (res1, recs1)"
    by (cases "pull_record g p e (res, recs)")
  have c1: "conflicts res1 = conflicts res @ conflict_of g p recs e"
    using conflicts_pull_record [of g p e res recs] by (simp add: step)
  have "conflict_of g p recs1 e' = conflict_of g p recs e'" if "e' \<in> set rem" for e'
  proof (rule conflict_of_cong)
    have "fst e \<notin> fst ` set rem"
      using Cons.prems by simp
    then have "fst e' \<noteq> fst e"
      using that by (metis imageI)
    then show "Map_get recs1 (fst e') = Map_get recs (fst e')"
      using pull_record_other_key [of "fst e'" e g p "(res, recs)"] by (simp add: step)
  qed
  then have same: "map (conflict_of g p recs1) rem = map (conflict_of g p recs) rem"
    by simp
  have "conflicts (fst (fold (pull_record g p) rem (res1, recs1)))
          = conflicts res1 @ concat (map (conflict_of g p recs1) rem)"
    using Cons.prems by (intro Cons.IH) simp
  then show ?case
    by (simp add: step c1 same)
qed

lemma conflicts_after_fold:
  "distinct (map fst rem) \<Longrightarrow>
     concat (map (conflict_of g p (snd (fold (pull_record g p) rem (res, recs)))) rem)
       = filter (\<lambda>c. resolution c \<noteq> Some ResRemote) (concat (map (conflict_of g p recs) rem))"
proof (induction rem arbitrary: res recs)
  case Nil
  show ?case by simp
next
  case (Cons e rem)
  obtain res1 recs1 where step: "pull_record g p e (res, recs) = (res1, recs1)"
    by (cases "pull_record g p e (res, recs)")
  define final where "final = snd (fold (pull_record g p) rem (res1, recs1))"
  have "fst e \<notin> fst ` set rem"
    using Cons.prems by auto
  then have "Map_get final (fst e) = Map_get recs1 (fst e)"
    unfolding final_def using fold_pull_record_other_key [of "fst e" rem g p "(res1, recs1)"] by simp
  then have "conflict_of g p final e = conflict_of g p recs1 e"
    by (rule conflict_of_cong)
  also have "\<dots> = filter (\<lambda>c. resolution c \<noteq> Some ResRemote) (conflict_of g p recs e)"
    using conflict_of_settle [of g p e res recs] by (simp add: step)
  finally have head: "conflict_of g p final e
      = filter (\<lambda>c. resolution c \<noteq> Some ResRemote) (conflict_of g p recs e)" .
  have "conflict_of g p recs1 e' = conflict_of g p recs e'" if "e' \<in> set rem" for e'
  proof (rule conflict_of_cong)
    have "fst e \<notin> fst ` set rem"
      using Cons.prems by simp
    then have "fst e' \<noteq> fst e"
      using that by (metis imageI)
    then show "Map_get recs1 (fst e') = Map_get recs (fst e')"
      using pull_record_other_key [of "fst e'" e g p "(res, recs)"] by (simp add: step)
  qed
  then have same: "map (conflict_of g p recs1) rem = map (conflict_of g p recs) rem"
    by simp
  have "concat (map (conflict_of g p final) rem)
          = filter (\<lambda>c. resolution c \<noteq> Some ResRemote) (concat (map (conflict_of g p recs1) rem))"
    unfolding final_def using Cons.prems by (intro Cons.IH) simp
  then show ?case
    by (simp add: step final_def [symmetric] head same)
qed


lemma conflicts_pull_cloudflare:
  assumes "distinct (remote_ids reply)"
  shows "conflicts (fst (pull_cloudflare g p reply (res, recs)))
           = conflicts res @ concat (map (conflict_of g p recs) (merged_entries reply))"
proof -
  have "conflicts (fst (pull_cloudflare g p reply (res, recs)))
          = conflicts (fst (fold (pull_record g p) (merged_entries reply) (res, recs)))"
    by (simp add: pull_cloudflare_def merged_entries_def split: sum.splits option.splits)
  then show ?thesis
    by (simp add: conflicts_fold_pull_record distinct_merged_entries [OF assms])
qed

lemma pull_phases_conflicts:
  assumes "distinct (remote_ids (kv_get env))"
  shows "conflicts (fst (pull_phases g p cf sf env (res, recs)))
           = conflicts res @
               (if cf then concat (map (conflict_of g p recs) (merged_entries (kv_get env))) else [])"
  by (simp add: pull_phases_def Let_def conflicts_pull_salesforce conflicts_pull_cloudflare [OF assms])

lemma settled_present: "settled g p recs e \<Longrightarrow> \<exists>l. Map_get recs (fst e) = Some l"
  by (cases "Map_get recs (fst e)") (simp_all add: settled_def)

lemma pull_salesforce_keeps_present:
  "Map_get (snd acc) k = Some l \<Longrightarrow> Map_get (snd (pull_salesforce now reply acc)) k = Some l"
  by (cases acc; cases reply) (simp_all add: snd_pull_salesforce mergeCRMState_keeps)

lemma pull_phases_conflicts_twice:
  assumes "distinct (remote_ids (kv_get env))"
    and "kv_get env' = kv_get env"
  shows "conflicts (fst (pull_phases g p cf sf env' (res', snd (pull_phases g p cf sf env (res, recs)))))
           = conflicts res' @
               filter (\<lambda>c. resolution c \<noteq> Some ResRemote)
                 (if cf then concat (map (conflict_of g p recs) (merged_entries (kv_get env))) else [])"
proof (cases cf)
  case False
  then show ?thesis
    using pull_phases_conflicts [of env' g p cf sf res'] assms by simp
next
  case True
  define E where "E = merged_entries (kv_get env)"
  define acc1 where "acc1 = pull_cloudflare g p (kv_get env) (res, recs)"
  define R1 where "R1 = snd (pull_phases g p cf sf env (res, recs))"
  have dE: "distinct (map fst E)"
    unfolding E_def by (rule distinct_merged_entries [OF assms(1)])
  have R1: "R1 = (if sf then snd (pull_salesforce (t_merge env) (crm_get env) acc1) else snd acc1)"
    by (simp add: R1_def pull_phases_def acc1_def Let_def True)
  have snd1: "snd acc1 = snd (fold (pull_record g p) E (res, recs))"
    by (simp add: acc1_def E_def snd_pull_cloudflare)
  have "list_all (settled g p (snd acc1)) E"
    using assms(1) by (simp add: E_def acc1_def pull_cloudflare_settles)
  then have present: "\<exists>l. Map_get (snd acc1) (fst e) = Some l" if "e \<in> set E" for e
    using that settled_present [of g p "snd acc1" e] by (simp add: list_all_iff)
  have "conflict_of g p R1 e = conflict_of g p (snd acc1) e" if e: "e \<in> set E" for e
  proof (rule conflict_of_cong)
    obtain l where l: "Map_get (snd acc1) (fst e) = Some l"
      using present [OF e] by blast
    show "Map_get R1 (fst e) = Map_get (snd acc1) (fst e)"
      unfolding R1 using pull_salesforce_keeps_present [OF l] l by simp
  qed
  then have "concat (map (conflict_of g p R1) E) = concat (map (conflict_of g p (snd acc1)) E)"
    by (simp cong: map_cong)
  also have "\<dots> = filter (\<lambda>c. resolution c \<noteq> Some ResRemote) (concat (map (conflict_of g p recs) E))"
    unfolding snd1 by (rule conflicts_after_fold [OF dE])
  finally have "concat (map (conflict_of g p R1) E)
      = filter (\<lambda>c. resolution c \<noteq> Some ResRemote) (concat (map (conflict_of g p recs) E))" .
  then show ?thesis
    using pull_phases_conflicts [of env' g p cf sf res' R1] assms True
    by (simp add: R1_def E_def)
qed

text \<open>
  \<^bold>\<open>C5\<close>, as the code has it: when \<open>sync({direction: 'pull'})\<close> is called twice and the stores
  answer the second call as they answered the first, the second call leaves every local
  record as the first left it, under each policy, and it reports the conflicts of the first
  call that were not resolved in favour of the remote record, in the same order, and no
  other: no conflict is new, and under the policy \<open>remote\<close> there is none.  (The ids of the
  stored payload are distinct, as the keys of an object are.)
\<close>

theorem pull_twice_changes_nothing:
  assumes "\<not> syncInProgress m" and "direction options = Some Pull"
    and "distinct (remote_ids (kv_get env))"
    and "kv_get env' = kv_get env" and "crm_get env' = crm_get env"
  shows "records (localState (snd (sync g options env' (snd (sync g options env m)))))
           = records (localState (snd (sync g options env m)))
       \<and> conflicts (fst (sync g options env' (snd (sync g options env m))))
           = filter (\<lambda>c. resolution c \<noteq> Some ResRemote) (conflicts (fst (sync g options env m)))
       \<and> (conflictResolution m = Remote \<longrightarrow>
            conflicts (fst (sync g options env' (snd (sync g options env m)))) = [])"
proof -
  define m1 where "m1 = snd (sync g options env m)"
  note first = sync_pull [OF assms(1,2), of g env, folded m1_def]
  note second = sync_pull [OF first(6) assms(2), of g env']
  have "records (localState (snd (sync g options env' m1))) = records (localState m1)"
    unfolding second(2) first(2-5)
    by (rule pull_phases_twice(1) [OF assms(3-5)])
  moreover have "conflicts (fst (sync g options env' m1))
      = filter (\<lambda>c. resolution c \<noteq> Some ResRemote) (conflicts (fst (sync g options env m)))"
    unfolding second(1) first(1-5)
    by (simp add: pull_phases_conflicts_twice [OF assms(3,4)] pull_phases_conflicts [OF assms(3)]
        empty_result_def)
  moreover have "conflicts (fst (sync g options env' m1)) = []" if "conflictResolution m = Remote"
    unfolding second(1) first(2-5)
    using pull_phases_twice(2) [OF assms(3-5) that, of g "cloudflare m" "salesforce m" empty_result]
    by (simp add: empty_result_def)
  ultimately show ?thesis
    by (simp add: m1_def)
qed

theorem pull_twice_changes_nothing_witness:
  "distinct (remote_ids (kv_get (ex_env (KvParsed ex_remote))))
   \<and> records (localState (snd (sync ex_getTime (ex_options Pull) (ex_env (KvParsed ex_remote))
        (snd (sync ex_getTime (ex_options Pull) (ex_env (KvParsed ex_remote))
           (ex_manager Remote True False [(''d1'', ex_prod [])]))))))
     = records (localState (snd (sync ex_getTime (ex_options Pull) (ex_env (KvParsed ex_remote))
           (ex_manager Remote True False [(''d1'', ex_prod [])]))))
   \<and> conflicts (fst (sync ex_getTime (ex_options Pull) (ex_env (KvParsed ex_remote))
           (ex_manager Remote True False [(''d1'', ex_prod [])])))
     = [\<lparr>recordId = ''d1'', field = ''data'', localValue = [(''env'', JStr ''prod'')],
         remoteValue = [(''env'', JStr ''staging'')], resolution = Some ResRemote\<rparr>]
   \<and> conflicts (fst (sync ex_getTime (ex_options Pull) (ex_env (KvParsed ex_remote))
        (snd (sync ex_getTime (ex_options Pull) (ex_env (KvParsed ex_remote))
           (ex_manager Remote True False [(''d1'', ex_prod [])]))))) = []"
proof -
  have 1: "\<not> syncInProgress (ex_manager Remote True False [(''d1'', ex_prod [])])"
    by (simp add: ex_manager_def importState_def initialize_def createStateManager_def
        updateLocalHash_def Let_def)
  have 2: "direction (ex_options Pull) = Some Pull"
    by (simp add: ex_options_def)
  have 3: "distinct (remote_ids (kv_get (ex_env (KvParsed ex_remote))))"
    by (simp add: ex_env_def ex_remote_def remote_ids_def)
  have 4: "conflicts (fst (sync ex_getTime (ex_options Pull) (ex_env (KvParsed ex_remote))
           (ex_manager Remote True False [(''d1'', ex_prod [])])))
     = [\<lparr>recordId = ''d1'', field = ''data'', localValue = [(''env'', JStr ''prod'')],
         remoteValue = [(''env'', JStr ''staging'')], resolution = Some ResRemote\<rparr>]"
    by (simp add: sync_def pullFromRemote_def pull_cloudflare_def retrieveState_def pull_record_def
        resolveConflict_def ex_manager_def ex_options_def ex_env_def ex_remote_def ex_prod_def
        ex_staging_def ex_record_def importState_def initialize_def createStateManager_def
        updateLocalHash_def empty_result_def Map_get_def Let_def)
  from pull_twice_changes_nothing [OF 1 2 3 refl refl, of ex_getTime] 3 4 show ?thesis
    by simp
qed

text \<open>Under the policy \<open>local\<close> a record whose local version was kept differs from the remote
  one as before, and the second call reports the conflict again.\<close>

theorem second_pull_repeats_conflict:
  "conflicts (fst (sync ex_getTime (ex_options Pull) (ex_env (KvParsed ex_remote))
      (snd (sync ex_getTime (ex_options Pull) (ex_env (KvParsed ex_remote))
         (ex_manager Local True False [(''d1'', ex_prod [])])))))
   = [\<lparr>recordId = ''d1'', field = ''data'', localValue = [(''env'', JStr ''prod'')],
       remoteValue = [(''env'', JStr ''staging'')], resolution = Some ResLocal\<rparr>]"
  by (simp add: sync_def pullFromRemote_def pull_cloudflare_def retrieveState_def pull_record_def
      resolveConflict_def ex_manager_def ex_options_def ex_env_def ex_remote_def ex_prod_def
      ex_staging_def ex_record_def importState_def initialize_def createStateManager_def
      updateLocalHash_def empty_result_def Map_get_def Let_def)

end
